(* ===== verification/Prelude.thy ===== *)
theory Prelude
  imports Main "HOL-Library.Word" "HOL-Library.AList" "HOL-Library.Multiset"
begin

text \<open>
  The shared layer of the development. It fixes the machine types of the C++ sources, the two build
  types (assertions on or off), the faults a C++ function can end in, the result type and its
  sequencing, the read operations on vectors, the operations of \<^verbatim>\<open>std::unordered_map\<close> the
  sources use, and three interfaces (locales): a prefix codec, an incremental parser and a machine
  with an invariant.
\<close>

unbundle bit_operations_syntax

named_theorems result_simps \<open>sequencing of results\<close>
named_theorems um_simps \<open>operations of unordered maps\<close>

section \<open>Types of the sources\<close>

type_synonym u8 = "8 word"
type_synonym u32 = "32 word"
type_synonym u64 = "64 word"
type_synonym bytes = "u8 list"

text \<open>
  \<^verbatim>\<open>std::vector<uint8_t>(json.data(), json.data() + json.size())\<close> and
  \<^verbatim>\<open>std::string((char*)p, n)\<close> reinterpret characters as bytes and back;
  \<^verbatim>\<open>c_str()\<close> handed to a reader of C strings ends at the first NUL.
\<close>

definition bytes_of_string :: "string \<Rightarrow> bytes" where
  "bytes_of_string s = map of_char s"

definition string_of_bytes :: "bytes \<Rightarrow> string" where
  "string_of_bytes bs = map (\<lambda>b. char_of (unat b)) bs"

definition c_str :: "string \<Rightarrow> string" where
  "c_str s = takeWhile (\<lambda>c. c \<noteq> CHR 0x00) s"

lemma length_bytes_of_string [simp]: "length (bytes_of_string s) = length s"
  by (simp add: bytes_of_string_def)

lemma of_char_less_256 [simp]: "(of_char c :: nat) < 256"
  using of_char_mod_256 [of c, where ?'a = nat] mod_less_divisor [of 256 "of_char c :: nat"]
  by simp

lemma unat_of_char_u8 [simp]: "unat (of_char c :: u8) = of_char c"
proof -
  have "(of_char c :: u8) = of_nat (of_char c)"
    by (cases c) (simp add: of_char_def split: bool.split)
  then show ?thesis
    by (simp add: unat_of_nat)
qed

lemma string_of_bytes_of_string [simp]: "string_of_bytes (bytes_of_string s) = s"
  by (simp add: string_of_bytes_def bytes_of_string_def comp_def)

lemma bytes_of_string_inj [simp]: "bytes_of_string s = bytes_of_string t \<longleftrightarrow> s = t"
  by (metis string_of_bytes_of_string)

lemma unat_of_nat_less: "n < 2 ^ LENGTH('a::len) \<Longrightarrow> unat (of_nat n :: 'a word) = n"
  by (simp add: unat_of_nat)

lemma ucast_of_nat_less:
  "n < 2 ^ LENGTH('a::len) \<Longrightarrow> (ucast (of_nat n :: 'a word) :: 'b::len word) = of_nat n"
  by (simp add: unsigned_of_nat take_bit_nat_eq_self)

section \<open>Faults and results\<close>

text \<open>
  \<^verbatim>\<open>assert\<close> is compiled in (\<open>Debug\<close>) or out (\<open>Release\<close>, the build type of the Makefile,
  which defines \<^verbatim>\<open>NDEBUG\<close>); every definition with an assertion takes the build type.
  A fault is how a function can fail to return: a failed assertion, undefined behaviour (an index
  out of range, a shift by the width or more, a signed overflow), an exception, a loop that never
  ends, or a second lock of a non-recursive mutex by its owner.
\<close>

datatype build = Debug | Release

datatype fault =
    AssertFailed string
  | UndefinedBehaviour string
  | OutOfRange
  | PitayaException string
  | Diverges
  | Deadlock

type_synonym 'a result = "fault + 'a"

definition bindR :: "'a result \<Rightarrow> ('a \<Rightarrow> 'b result) \<Rightarrow> 'b result" where
  "bindR r f = (case r of Inl e \<Rightarrow> Inl e | Inr x \<Rightarrow> f x)"

definition cassert :: "build \<Rightarrow> bool \<Rightarrow> string \<Rightarrow> unit result" where
  "cassert b P what = (if b = Debug \<and> \<not> P then Inl (AssertFailed what) else Inr ())"

lemma bindR_Inl [simp, result_simps]: "bindR (Inl e) f = Inl e"
  by (simp add: bindR_def)

lemma bindR_Inr [simp, result_simps]: "bindR (Inr x) f = f x"
  by (simp add: bindR_def)

lemma bindR_if [result_simps]: "bindR (if P then x else y) f = (if P then bindR x f else bindR y f)"
  by simp

lemma bindR_eq_Inr: "bindR r f = Inr y \<longleftrightarrow> (\<exists>x. r = Inr x \<and> f x = Inr y)"
  by (cases r) simp_all

lemma Inr_eq_bindR: "Inr y = bindR r f \<longleftrightarrow> (\<exists>x. r = Inr x \<and> f x = Inr y)"
  by (cases r) (auto dest: sym)

lemma bindR_eq_Inl: "bindR r f = Inl e \<longleftrightarrow> r = Inl e \<or> (\<exists>x. r = Inr x \<and> f x = Inl e)"
  by (cases r) simp_all

lemma bindR_assoc [result_simps]: "bindR (bindR r f) g = bindR r (\<lambda>x. bindR (f x) g)"
  by (cases r) simp_all

lemma bindR_cong [fundef_cong]:
  "r = r' \<Longrightarrow> (\<And>x. r' = Inr x \<Longrightarrow> f x = g x) \<Longrightarrow> bindR r f = bindR r' g"
  by (cases r') simp_all

lemma cassert_True [simp, result_simps]: "cassert b True what = Inr ()"
  by (simp add: cassert_def)

lemma cassert_Release [simp, result_simps]: "cassert Release P what = Inr ()"
  by (simp add: cassert_def)

lemma cassert_Debug_False [simp, result_simps]: "cassert Debug False what = Inl (AssertFailed what)"
  by (simp add: cassert_def)

lemma cassert_eq_Inr: "cassert b P what = Inr u \<longleftrightarrow> (b = Debug \<longrightarrow> P)"
  by (auto simp: cassert_def)

text \<open>The fault of a result, if it is one.\<close>

definition failure :: "'a result \<Rightarrow> fault option" where
  "failure r = (case r of Inl e \<Rightarrow> Some e | Inr _ \<Rightarrow> None)"

lemma failure_simps [simp]: "failure (Inl e) = Some e" "failure (Inr x) = None"
  by (simp_all add: failure_def)

lemma failure_bindR: "failure (bindR r f) = (case r of Inl e \<Rightarrow> Some e | Inr x \<Rightarrow> failure (f x))"
  by (cases r) simp_all

lemma failure_cassert: "failure (bindR (cassert b P what) f) = (if b = Debug \<and> \<not> P then Some (AssertFailed what) else failure (f ()))"
  by (simp add: cassert_def)

lemma failure_eq_Some: "failure r = Some e \<longleftrightarrow> r = Inl e"
  by (cases r) simp_all

lemma failure_eq_None: "failure r = None \<longleftrightarrow> (\<exists>x. r = Inr x)"
  by (cases r) simp_all

fun foldR :: "('a \<Rightarrow> 's \<Rightarrow> 's result) \<Rightarrow> 'a list \<Rightarrow> 's \<Rightarrow> 's result" where
  "foldR f [] s = Inr s"
| "foldR f (x # xs) s = bindR (f x s) (foldR f xs)"

lemma foldR_append: "foldR f (xs @ ys) s = bindR (foldR f xs s) (foldR f ys)"
  by (induction xs arbitrary: s) (simp_all add: bindR_assoc fun_eq_iff cong: bindR_cong)

section \<open>Vectors\<close>

text \<open>A list is what is before an index, the element there and what is behind it.\<close>

lemma at_index: "i < length xs \<Longrightarrow> f xs = f (take i xs @ xs ! i # drop (Suc i) xs)"
  by (simp only: id_take_nth_drop [symmetric])

lemma in_taken:
  assumes "i < length ops"
  shows "x \<in> set ops \<longleftrightarrow> x = ops ! i \<or> x \<in> set (take i ops) \<or> x \<in> set (drop (Suc i) ops)"
  using at_index [OF assms, of set] by auto

text \<open>
  \<^verbatim>\<open>v[i]\<close> and the copy of a range out of a vector are undefined beyond its size.
\<close>

definition rd :: "bytes \<Rightarrow> nat \<Rightarrow> u8 result" where
  "rd v i = (if i < length v then Inr (v ! i) else Inl (UndefinedBehaviour ''vector index''))"

definition rd_range :: "bytes \<Rightarrow> nat \<Rightarrow> nat \<Rightarrow> bytes result" where
  "rd_range v i n =
     (if i + n \<le> length v then Inr (take n (drop i v))
      else Inl (UndefinedBehaviour ''vector range''))"

text \<open>Bytes written by the socket into the vector at offset \<open>i\<close> (\<open>i + length c \<le> length v\<close>).\<close>

definition overwrite :: "nat \<Rightarrow> bytes \<Rightarrow> bytes \<Rightarrow> bytes" where
  "overwrite i c v = take i v @ c @ drop (i + length c) v"

lemma rd_inside [simp]: "i < length v \<Longrightarrow> rd v i = Inr (v ! i)"
  by (simp add: rd_def)

lemma rd_outside [simp]: "length v \<le> i \<Longrightarrow> rd v i = Inl (UndefinedBehaviour ''vector index'')"
  by (simp add: rd_def)

lemma rd_range_inside [simp]: "i + n \<le> length v \<Longrightarrow> rd_range v i n = Inr (take n (drop i v))"
  by (simp add: rd_range_def)

lemma length_overwrite [simp]: "i + length c \<le> length v \<Longrightarrow> length (overwrite i c v) = length v"
  by (simp add: overwrite_def)

lemma take_overwrite:
  "i + length c \<le> length v \<Longrightarrow> take (i + length c) (overwrite i c v) = take i v @ c"
  by (simp add: overwrite_def)

section \<open>Unordered maps\<close>

text \<open>
  \<^verbatim>\<open>std::unordered_map\<close> as an association list. The order of the list means nothing; code that
  iterates over a map takes the iteration order as a parameter. The operations are
  \<^verbatim>\<open>find\<close>, \<^verbatim>\<open>at\<close> (throws \<^verbatim>\<open>std::out_of_range\<close>), \<^verbatim>\<open>insert\<close> and
  \<^verbatim>\<open>emplace\<close> (keep an entry that is already there), \<^verbatim>\<open>operator[] =\<close> (replaces it) and
  \<^verbatim>\<open>erase\<close>.
\<close>

type_synonym ('k, 'v) umap = "('k \<times> 'v) list"

definition um_find :: "('k, 'v) umap \<Rightarrow> 'k \<Rightarrow> 'v option" where
  "um_find m k = map_of m k"

definition um_at :: "('k, 'v) umap \<Rightarrow> 'k \<Rightarrow> 'v result" where
  "um_at m k = (case map_of m k of None \<Rightarrow> Inl OutOfRange | Some v \<Rightarrow> Inr v)"

definition um_insert :: "'k \<Rightarrow> 'v \<Rightarrow> ('k, 'v) umap \<Rightarrow> ('k, 'v) umap" where
  "um_insert k v m = (case map_of m k of None \<Rightarrow> m @ [(k, v)] | Some _ \<Rightarrow> m)"

definition um_set :: "'k \<Rightarrow> 'v \<Rightarrow> ('k, 'v) umap \<Rightarrow> ('k, 'v) umap" where
  "um_set k v m = AList.update k v m"

definition um_erase :: "'k \<Rightarrow> ('k, 'v) umap \<Rightarrow> ('k, 'v) umap" where
  "um_erase k m = AList.delete k m"

definition um_wf :: "('k, 'v) umap \<Rightarrow> bool" where
  "um_wf m \<longleftrightarrow> distinct (map fst m)"

lemma um_find_Nil [simp, um_simps]: "um_find [] k = None"
  by (simp add: um_find_def)

lemma um_find_insert [um_simps]:
  "um_find (um_insert k v m) k' =
     (if k' = k \<and> um_find m k = None then Some v else um_find m k')"
  by (auto simp: um_find_def um_insert_def map_add_def split: option.splits)

lemma um_find_set [um_simps]: "um_find (um_set k v m) k' = (if k' = k then Some v else um_find m k')"
  by (simp add: um_find_def um_set_def update_conv')

lemma um_find_erase [um_simps]: "um_find (um_erase k m) k' = (if k' = k then None else um_find m k')"
  by (simp add: um_find_def um_erase_def delete_conv')

lemma um_at_conv: "um_at m k = (case um_find m k of None \<Rightarrow> Inl OutOfRange | Some v \<Rightarrow> Inr v)"
  by (simp add: um_at_def um_find_def)

lemma um_wf_Nil [simp]: "um_wf []"
  by (simp add: um_wf_def)

lemma um_wf_insert [simp, intro]: "um_wf m \<Longrightarrow> um_wf (um_insert k v m)"
  by (auto simp: um_wf_def um_insert_def map_of_eq_None_iff split: option.splits)

lemma um_wf_set [simp, intro]: "um_wf m \<Longrightarrow> um_wf (um_set k v m)"
  by (simp add: um_wf_def um_set_def distinct_update)

lemma um_wf_erase [simp, intro]: "um_wf m \<Longrightarrow> um_wf (um_erase k m)"
  by (simp add: um_wf_def um_erase_def distinct_delete)

section \<open>Interfaces\<close>

text \<open>
  A prefix codec: decoding an encoding that is followed by anything gives the value back and leaves
  what follows. The clients get that encodings are uniquely readable and that a sequence of
  encodings is read back element by element.
\<close>

fun decode_n :: "(bytes \<Rightarrow> ('a \<times> bytes) option) \<Rightarrow> nat \<Rightarrow> bytes \<Rightarrow> ('a list \<times> bytes) option" where
  "decode_n dec 0 bs = Some ([], bs)"
| "decode_n dec (Suc n) bs =
     (case dec bs of None \<Rightarrow> None
      | Some (x, r) \<Rightarrow> (case decode_n dec n r of None \<Rightarrow> None | Some (xs, r') \<Rightarrow> Some (x # xs, r')))"

locale prefix_codec =
  fixes enc :: "'a \<Rightarrow> bytes"
    and dec :: "bytes \<Rightarrow> ('a \<times> bytes) option"
    and valid :: "'a \<Rightarrow> bool"
  assumes dec_enc: "valid x \<Longrightarrow> dec (enc x @ r) = Some (x, r)"
begin

lemma enc_unique:
  assumes "valid x" and "valid y" and "enc x @ r = enc y @ r'"
  shows "x = y \<and> r = r'"
proof -
  have "Some (x, r) = dec (enc x @ r)"
    by (rule dec_enc [OF assms(1), symmetric])
  also have "\<dots> = dec (enc y @ r')"
    by (simp only: assms(3))
  also have "\<dots> = Some (y, r')"
    by (rule dec_enc [OF assms(2)])
  finally show ?thesis by simp
qed

lemma decode_sequence:
  "\<forall>x \<in> set xs. valid x \<Longrightarrow>
     decode_n dec (length xs) (concat (map enc xs) @ r) = Some (xs, r)"
proof (induction xs)
  case Nil
  then show ?case by simp
next
  case (Cons x xs)
  then have "dec (enc x @ concat (map enc xs) @ r) = Some (x, concat (map enc xs) @ r)"
    by (simp add: dec_enc)
  with Cons show ?case by simp
qed

end

text \<open>
  An incremental parser: it takes what is complete off a buffer and returns the rest. The law says
  that parsing a longer buffer is parsing the shorter one and going on from what it left. The
  client's result: fed with any division of a byte stream into chunks, it delivers what it would
  deliver for the whole stream at once.
\<close>

fun feed :: "(bytes \<Rightarrow> ('p list \<times> bytes) result) \<Rightarrow> bytes list \<Rightarrow> bytes \<Rightarrow> ('p list \<times> bytes) result" where
  "feed parse [] r = Inr ([], r)"
| "feed parse (c # cs) r =
     bindR (parse (r @ c)) (\<lambda>(ps, r'). bindR (feed parse cs r') (\<lambda>(qs, r''). Inr (ps @ qs, r'')))"

locale incremental_parser =
  fixes parse :: "bytes \<Rightarrow> ('p list \<times> bytes) result"
  assumes parse_Nil: "parse [] = Inr ([], [])"
    and parse_append:
      "parse xs = Inr (ps, r) \<Longrightarrow>
         parse (xs @ ys) = bindR (parse (r @ ys)) (\<lambda>(qs, r'). Inr (ps @ qs, r'))"
begin

lemma parse_rest: "parse xs = Inr (ps, r) \<Longrightarrow> parse r = Inr ([], r)"
  using parse_append [of xs ps r "[]"] by (auto simp: bindR_eq_Inr Inr_eq_bindR split: prod.splits)

lemma feed_concat:
  assumes "parse (r @ concat cs) = Inr (ps, r')" and "parse r = Inr ([], r)"
  shows "feed parse cs r = Inr (ps, r') \<or> (\<exists>e. feed parse cs r = Inl e)"
  using assms
proof (induction cs arbitrary: r ps)
  case Nil
  then show ?case by auto
next
  case (Cons c cs)
  show ?case
  proof (cases "parse (r @ c)")
    case (Inl e)
    then show ?thesis by simp
  next
    case (Inr x)
    then obtain qs r1 where x: "parse (r @ c) = Inr (qs, r1)" by (cases x) auto
    have "parse ((r @ c) @ concat cs) = bindR (parse (r1 @ concat cs)) (\<lambda>(q, r'). Inr (qs @ q, r'))"
      by (rule parse_append [OF x])
    with Cons.prems(1) obtain q where q: "parse (r1 @ concat cs) = Inr (q, r')" and ps: "ps = qs @ q"
      by (auto simp: bindR_eq_Inr Inr_eq_bindR split: prod.splits)
    from Cons.IH [OF q parse_rest [OF x]] x ps show ?thesis by auto
  qed
qed

end

text \<open>
  Where no shorter buffer fails on the way to a good longer one, the chunked run cannot fail.
\<close>

locale prefix_closed_parser = incremental_parser +
  assumes parse_prefix: "parse (xs @ ys) = Inr z \<Longrightarrow> \<exists>ps r. parse xs = Inr (ps, r)"
begin

lemma feed_eq_parse:
  assumes "parse (r @ concat cs) = Inr (ps, r')" and "parse r = Inr ([], r)"
  shows "feed parse cs r = Inr (ps, r')"
  using assms
proof (induction cs arbitrary: r ps)
  case Nil
  then show ?case by simp
next
  case (Cons c cs)
  from Cons.prems(1) obtain qs r1 where x: "parse (r @ c) = Inr (qs, r1)"
    using parse_prefix [of "r @ c" "concat cs" "(ps, r')"] by auto
  have "parse ((r @ c) @ concat cs) = bindR (parse (r1 @ concat cs)) (\<lambda>(q, r'). Inr (qs @ q, r'))"
    by (rule parse_append [OF x])
  with Cons.prems(1) obtain q where q: "parse (r1 @ concat cs) = Inr (q, r')" and ps: "ps = qs @ q"
    by (auto simp: bindR_eq_Inr Inr_eq_bindR split: prod.splits)
  from Cons.IH [OF q parse_rest [OF x]] x ps show ?case by simp
qed

lemma feed_eq_parse_Nil:
  "parse (concat cs) = Inr (ps, r) \<Longrightarrow> feed parse cs [] = Inr (ps, r)"
  using feed_eq_parse [of "[]" cs ps r] parse_Nil by simp

end

text \<open>
  A machine: a step function that may fault, an invariant, and the events the environment may
  choose in a state. Runs of allowed events keep the invariant.
\<close>

fun allowed :: "('e \<Rightarrow> 's \<Rightarrow> 's result) \<Rightarrow> ('e \<Rightarrow> 's \<Rightarrow> bool) \<Rightarrow> 'e list \<Rightarrow> 's \<Rightarrow> bool" where
  "allowed step may [] s \<longleftrightarrow> True"
| "allowed step may (e # es) s \<longleftrightarrow>
     may e s \<and> (case step e s of Inl _ \<Rightarrow> True | Inr s' \<Rightarrow> allowed step may es s')"

lemma allowed_anything [simp]: "allowed step (\<lambda>_ _. True) es s"
  by (induction es arbitrary: s) (simp_all split: sum.split)

lemma allowed_all: "\<forall>e \<in> set es. P e \<Longrightarrow> allowed step (\<lambda>e _. P e) es s"
  by (induction es arbitrary: s) (auto split: sum.split)

lemma allowed_conj:
  "allowed step (\<lambda>e s. P e s \<and> Q e s) es s \<longleftrightarrow> allowed step P es s \<and> allowed step Q es s"
  by (induction es arbitrary: s) (auto split: sum.splits)

lemma allowed_take: "allowed step may es s \<Longrightarrow> allowed step may (take k es) s"
proof (induction es arbitrary: k s)
  case (Cons e es)
  then show ?case by (cases k) (auto split: sum.splits)
qed simp

lemma allowed_append:
  "allowed step may (es @ es') s \<longleftrightarrow>
     allowed step may es s \<and> (case foldR step es s of Inl _ \<Rightarrow> True | Inr s' \<Rightarrow> allowed step may es' s')"
  by (induction es arbitrary: s) (auto split: sum.splits simp: bindR_def)

locale machine =
  fixes step :: "'e \<Rightarrow> 's \<Rightarrow> 's result"
    and may :: "'e \<Rightarrow> 's \<Rightarrow> bool"
    and inv :: "'s \<Rightarrow> bool"
  assumes step_inv: "inv s \<Longrightarrow> may e s \<Longrightarrow> step e s = Inr s' \<Longrightarrow> inv s'"
begin

lemma run_inv: "inv s \<Longrightarrow> allowed step may es s \<Longrightarrow> foldR step es s = Inr s' \<Longrightarrow> inv s'"
proof (induction es arbitrary: s)
  case Nil
  then show ?case by simp
next
  case (Cons e es)
  then obtain t where t: "step e s = Inr t" and r: "foldR step es t = Inr s'"
    by (auto simp: bindR_eq_Inr)
  from Cons.prems t have "inv t" and "allowed step may es t"
    by (auto intro: step_inv)
  then show ?case using r by (rule Cons.IH)
qed

end

end
