(* ===== verification/Net.thy ===== *)
theory Net
  imports Prelude
begin

text \<open>
  \<^verbatim>\<open>src/utils/net.h\<close>: splitting \<^verbatim>\<open>host:port\<close> at the first colon. \<open>find_first_of\<close> is
  \<^verbatim>\<open>std::string::find_first_of\<close> for one character, with \<open>None\<close> for \<^verbatim>\<open>npos\<close>.
\<close>

fun find_first_of :: "string \<Rightarrow> char \<Rightarrow> nat option" where
  "find_first_of [] c = None"
| "find_first_of (x # xs) c = (if x = c then Some 0 else map_option Suc (find_first_of xs c))"

definition SplitHostAndPort :: "string \<Rightarrow> (string \<times> string) option" where
  "SplitHostAndPort address =
     (case find_first_of address (CHR '':'') of
        None \<Rightarrow> None
      | Some colonPos \<Rightarrow> Some (take colonPos address, drop (colonPos + 1) address))"

lemma find_first_of_None: "find_first_of s c = None \<longleftrightarrow> c \<notin> set s"
  by (induction s) auto

lemma find_first_of_Some:
  "find_first_of s c = Some n \<longleftrightarrow> (\<exists>u v. s = u @ c # v \<and> c \<notin> set u \<and> n = length u)"
proof (induction s arbitrary: n)
  case Nil
  then show ?case by simp
next
  case (Cons x xs)
  show ?case
  proof (cases "x = c")
    case True
    then show ?thesis by (auto simp: Cons_eq_append_conv)
  next
    case False
    then show ?thesis by (auto simp: Cons.IH Cons_eq_append_conv) (metis length_Cons set_ConsD)+
  qed
qed

text \<open>
  An address is split at its first colon: the host holds no colon, host, colon and port give the
  address back, and only an address without a colon is refused.
\<close>

theorem SplitHostAndPort_spec:
  "(SplitHostAndPort address = Some (host, port) \<longleftrightarrow>
      address = host @ CHR '':'' # port \<and> CHR '':'' \<notin> set host)
   \<and> (SplitHostAndPort address = None \<longleftrightarrow> CHR '':'' \<notin> set address)"
proof (cases "find_first_of address (CHR '':'')")
  case None
  then have "CHR '':'' \<notin> set address" by (simp add: find_first_of_None)
  with None show ?thesis by (auto simp: SplitHostAndPort_def)
next
  case (Some n)
  then obtain u v where a: "address = u @ CHR '':'' # v" "CHR '':'' \<notin> set u" "n = length u"
    by (auto simp: find_first_of_Some)
  with Some have "SplitHostAndPort address = Some (u, v)"
    by (simp add: SplitHostAndPort_def)
  moreover have "address = host @ CHR '':'' # port \<and> CHR '':'' \<notin> set host \<longleftrightarrow> host = u \<and> port = v"
    using a(1,2) by (auto simp: append_eq_append_conv2 Cons_eq_append_conv append_eq_Cons_conv)
  ultimately show ?thesis using a(1) by auto
qed

end
