(* ===== verification/Gzip.thy ===== *)
theory Gzip
  imports Prelude
begin

text \<open>
  \<^verbatim>\<open>src/utils/gzip.cpp\<close>. zlib and the success of \<^verbatim>\<open>realloc\<close> are parameters: a record of
  the functions the file calls. A stream (\<open>'z\<close>) carries zlib's own state and the input that was
  handed over through \<^verbatim>\<open>next_in\<close> and \<^verbatim>\<open>avail_in\<close>; \<open>inflate\<close> and \<open>deflate\<close> get the
  room in the output (\<^verbatim>\<open>avail_out\<close>) and return the code, the bytes written at
  \<^verbatim>\<open>next_out\<close> and the stream. The loops are partial functions: \<open>None\<close> is a loop that never
  ends. The output buffer is the list of the bytes written into it so far.
\<close>

record 'z zlib =
  inflateInit2 :: "int \<Rightarrow> int \<times> 'z"
  inflate_input :: "'z \<Rightarrow> bytes \<Rightarrow> 'z"
  inflate :: "'z \<Rightarrow> int \<Rightarrow> u32 \<Rightarrow> int \<times> bytes \<times> 'z"
  inflateEnd :: "'z \<Rightarrow> int"
  deflateInit :: "int \<Rightarrow> int \<times> 'z"
  deflate_input :: "'z \<Rightarrow> bytes \<Rightarrow> 'z"
  deflate :: "'z \<Rightarrow> int \<Rightarrow> u32 \<Rightarrow> int \<times> bytes \<times> 'z"
  deflateEnd :: "'z \<Rightarrow> int"
  realloc_ok :: "u64 \<Rightarrow> bool"

text \<open>The constants of \<^verbatim>\<open>zlib.h\<close>.\<close>

abbreviation (input) Z_OK :: int where "Z_OK \<equiv> 0"
abbreviation (input) Z_STREAM_END :: int where "Z_STREAM_END \<equiv> 1"
abbreviation (input) Z_MEM_ERROR :: int where "Z_MEM_ERROR \<equiv> -4"
abbreviation (input) Z_BUF_ERROR :: int where "Z_BUF_ERROR \<equiv> -5"
abbreviation (input) Z_NO_FLUSH :: int where "Z_NO_FLUSH \<equiv> 0"
abbreviation (input) Z_FINISH :: int where "Z_FINISH \<equiv> 4"
abbreviation (input) Z_DEFAULT_COMPRESSION :: int where "Z_DEFAULT_COMPRESSION \<equiv> -1"

section \<open>Detection\<close>

definition IsCompressed :: "bytes \<Rightarrow> bool" where
  "IsCompressed data \<longleftrightarrow>
     length data > 2 \<and>
     ((data ! 0 = 0x78 \<and> (data ! 1 = 0x9C \<or> data ! 1 = 0x01 \<or> data ! 1 = 0xDA \<or> data ! 1 = 0x5E))
      \<or> (data ! 0 = 0x1F \<and> data ! 1 = 0x8B))"

section \<open>Decompression\<close>

text \<open>
  What \<open>Decompress\<close> leaves: its return code, \<^verbatim>\<open>*output\<close> (\<open>None\<close> for \<^verbatim>\<open>NULL\<close>) and
  \<^verbatim>\<open>*output_size\<close>.
\<close>

type_synonym inflated = "int \<times> bytes option \<times> u64"

partial_function (option) inflate_loop ::
  "'z zlib \<Rightarrow> u64 \<Rightarrow> 'z \<Rightarrow> u64 \<Rightarrow> bytes option \<Rightarrow> u64 \<Rightarrow> inflated option"
where
  "inflate_loop Z isize z size_uncompressed output output_size =
     (if \<not> realloc_ok Z (size_uncompressed + 2 * isize)
      then Some (Z_MEM_ERROR, output, output_size)
      else (case inflate Z z Z_FINISH (ucast (2 * isize)) of (ret, written, z') \<Rightarrow>
        (if ret \<noteq> Z_STREAM_END \<and> ret \<noteq> Z_OK \<and> ret \<noteq> Z_BUF_ERROR
         then Some (inflateEnd Z z', Some (case_option [] id output @ written), output_size)
         else (case (ucast (2 * isize) :: u32) - of_nat (length written) of avail_out \<Rightarrow>
           (case size_uncompressed + (2 * isize - ucast avail_out) of su \<Rightarrow>
             (if avail_out = 0
              then inflate_loop Z isize z' su (Some (case_option [] id output @ written)) su
              else Some (inflateEnd Z z', Some (case_option [] id output @ written), su)))))))"

declare inflate_loop.simps [code]

definition Decompress :: "'z zlib \<Rightarrow> bytes \<Rightarrow> u64 \<Rightarrow> inflated option" where
  "Decompress Z data output_size =
     (let isize = of_nat (length data) :: u64;
          (rc, z) = inflateInit2 Z (15 + 32)
      in if rc \<noteq> Z_OK then Some (1, None, output_size)
         else inflate_loop Z isize
                (inflate_input Z z (take (unat (ucast isize :: u32)) data))
                0 None output_size)"

text \<open>
  What zlib documents of \<open>inflate\<close> on a good stream: there is an output still to come (\<open>rest\<close>);
  a call writes as much of it as there is room for, and ends with one of the three codes that are
  no errors.
\<close>

definition inflates :: "'z zlib \<Rightarrow> ('z \<Rightarrow> bytes) \<Rightarrow> bool" where
  "inflates Z rest \<longleftrightarrow>
     (\<forall>z n. case inflate Z z Z_FINISH n of (ret, written, z') \<Rightarrow>
        written = take (unat n) (rest z) \<and> rest z' = drop (unat n) (rest z) \<and>
        ret \<in> {Z_STREAM_END, Z_OK, Z_BUF_ERROR} \<and> inflateEnd Z z' = Z_OK)"

lemma inflatesD:
  assumes "inflates Z rest" and "inflate Z z Z_FINISH n = (ret, written, z')"
  shows "written = take (unat n) (rest z)" and "rest z' = drop (unat n) (rest z)"
    and "ret \<in> {Z_STREAM_END, Z_OK, Z_BUF_ERROR}" and "inflateEnd Z z' = Z_OK"
  using assms(1) [unfolded inflates_def, THEN spec [of _ z], THEN spec [of _ n]] assms(2) by auto

lemma room_word: "2 * n < 2 ^ 32 \<Longrightarrow> (ucast (2 * (of_nat n :: u64)) :: u32) = of_nat (2 * n)"
  using ucast_of_nat_less [of "2 * n", where 'a = 64 and 'b = 32] by simp

lemma room_left:
  assumes "2 * n < 2 ^ 32" and "k \<le> 2 * n"
  shows "(of_nat (2 * n) :: u32) - of_nat k = of_nat (2 * n - k)"
    and "2 * (of_nat n :: u64) - ucast (of_nat (2 * n - k) :: u32) = of_nat k"
    and "(of_nat (2 * n - k) :: u32) = 0 \<longleftrightarrow> k = 2 * n"
proof -
  show "(of_nat (2 * n) :: u32) - of_nat k = of_nat (2 * n - k)"
    using assms(2) by (simp only: of_nat_diff)
  have "(ucast (of_nat (2 * n - k) :: u32) :: u64) = of_nat (2 * n - k)"
    using assms(1) by (intro ucast_of_nat_less) simp
  then show "2 * (of_nat n :: u64) - ucast (of_nat (2 * n - k) :: u32) = of_nat k"
    using assms(2) by (simp only:) (simp add: of_nat_diff)
  have "unat (of_nat (2 * n - k) :: u32) = 2 * n - k"
    using assms(1) by (intro unat_of_nat_less) simp
  then show "(of_nat (2 * n - k) :: u32) = 0 \<longleftrightarrow> k = 2 * n"
    using assms(2) by (metis diff_is_0_eq le_antisym unat_eq_zero order_refl)
qed

lemma inflate_loop_round:
  fixes n :: nat
  assumes law: "inflates Z rest" and mem: "\<forall>n. realloc_ok Z n" and n: "2 * n < 2 ^ 32"
    and call: "inflate Z z Z_FINISH (of_nat (2 * n)) = (ret, w, z')"
  shows "inflate_loop Z (of_nat n) z su out sz =
     (if length w = 2 * n
      then inflate_loop Z (of_nat n) z' (su + of_nat (length w))
             (Some (case_option [] id out @ w)) (su + of_nat (length w))
      else Some (Z_OK, Some (case_option [] id out @ w), su + of_nat (length w)))"
proof -
  have u: "unat (of_nat (2 * n) :: u32) = 2 * n"
    using n by (intro unat_of_nat_less) simp
  note d = inflatesD [OF law call, unfolded u]
  have k: "length w \<le> 2 * n" using d(1) by simp
  show ?thesis
    using mem d(3,4)
    by (subst inflate_loop.simps)
      (auto simp only: room_word [OF n] call room_left [OF n k] prod.case if_False if_True simp_thms
        insert_iff empty_iff split: if_splits)
qed

lemma inflate_loop_correct:
  assumes law: "inflates Z rest" and mem: "\<forall>n. realloc_ok Z n"
    and n: "0 < n" "2 * n < 2 ^ 32"
  shows "inflate_loop Z (of_nat n) z (of_nat (length (case_option [] id out))) out sz =
         Some (Z_OK, Some (case_option [] id out @ rest z),
               of_nat (length (case_option [] id out @ rest z)))"
proof (induction "length (rest z)" arbitrary: z out sz rule: less_induct)
  case less
  obtain ret w z' where call: "inflate Z z Z_FINISH (of_nat (2 * n)) = (ret, w, z')"
    by (cases "inflate Z z Z_FINISH (of_nat (2 * n))") auto
  have u: "unat (of_nat (2 * n) :: u32) = 2 * n"
    using n by (intro unat_of_nat_less) simp
  note d = inflatesD [OF law call, unfolded u]
  note round = inflate_loop_round [OF law mem n(2) call]
  show ?case
  proof (cases "length w = 2 * n")
    case True
    with d(1,2) n(1) have "length (rest z') < length (rest z)" by simp
    from less [OF this, of "Some (case_option [] id out @ w)"] True d(1,2) show ?thesis
      by (simp add: round)
  next
    case False
    with d(1) have "w = rest z" by simp
    with False show ?thesis by (simp add: round)
  qed
qed

lemma input_all: "length data < 2 ^ 31 \<Longrightarrow> unat (ucast (of_nat (length data) :: u64) :: u32) = length data"
  by (simp add: ucast_of_nat_less unat_of_nat_less)

lemma Decompress_good:
  assumes "inflates Z rest" and "\<forall>n. realloc_ok Z n"
    and "inflateInit2 Z 47 = (Z_OK, z)" and "rest (inflate_input Z z data) = plain"
    and "0 < length data" and "length data < 2 ^ 31"
  shows "Decompress Z data sz = Some (0, Some plain, of_nat (length plain))"
  using inflate_loop_correct [OF assms(1,2,5), of "inflate_input Z z data" None sz] assms(3,4,6)
  by (simp add: Decompress_def input_all)

lemma Decompress_error:
  assumes "inflateInit2 Z 47 = (Z_OK, z)" and "realloc_ok Z (2 * of_nat (length data))"
    and "inflate Z (inflate_input Z z data) Z_FINISH (of_nat (2 * length data)) = (ret, w, z')"
    and "ret \<notin> {Z_STREAM_END, Z_OK, Z_BUF_ERROR}" and "length data < 2 ^ 31"
  shows "Decompress Z data sz = Some (inflateEnd Z z', Some w, sz)"
proof -
  have "(ucast (2 * (of_nat (length data) :: u64)) :: u32) = of_nat (2 * length data)"
    using assms(5) by (intro room_word) simp
  with assms show ?thesis
    by (simp add: Decompress_def input_all) (subst inflate_loop.simps, simp)
qed


text \<open>
  A stream for witnesses: every input byte stands for three equal output bytes, so that a
  decompression takes two rounds.
\<close>

definition tripling_zlib :: "bytes zlib" where
  "tripling_zlib =
     \<lparr>inflateInit2 = (\<lambda>_. (Z_OK, [])),
      inflate_input = (\<lambda>_ bs. concat (map (\<lambda>b. [b, b, b]) bs)),
      inflate = (\<lambda>z _ n. (if unat n < length z then Z_BUF_ERROR else Z_STREAM_END,
                          take (unat n) z, drop (unat n) z)),
      inflateEnd = (\<lambda>_. Z_OK),
      deflateInit = (\<lambda>_. (Z_OK, [])),
      deflate_input = (\<lambda>_ bs. bs),
      deflate = (\<lambda>z _ n. (if unat n < length z then Z_OK else Z_STREAM_END,
                          take (unat n) z, drop (unat n) z)),
      deflateEnd = (\<lambda>_. Z_OK),
      realloc_ok = (\<lambda>_. True)\<rparr>"

lemma inflates_tripling: "inflates tripling_zlib (\<lambda>z. z)"
  by (simp add: inflates_def tripling_zlib_def)


end
