(* ===== verification/Gzip_Compress.thy ===== *)
theory Gzip_Compress
  imports Gzip
begin

text \<open>
  The second half of \<^verbatim>\<open>src/utils/gzip.cpp\<close>: \<open>Compress\<close>, three nested loops around zlib's
  \<open>deflate\<close> with an output buffer that grows by 64 bytes, and the round trip with \<open>Decompress\<close>.
\<close>

section \<open>Compression\<close>

text \<open>
  The state of \<open>Compress\<close>: the stream, the bytes written to the output buffer, the room zlib
  knows of (\<^verbatim>\<open>strm.avail_out\<close>) and \<^verbatim>\<open>*output_size\<close>.
\<close>

record 'z deflating =
  d_strm :: 'z
  d_output :: bytes
  d_avail_out :: u32
  d_output_size :: u64

definition deflate_call :: "'z zlib \<Rightarrow> int \<Rightarrow> 'z deflating \<Rightarrow> int \<times> 'z deflating" where
  "deflate_call Z flush d =
     (case deflate Z (d_strm d) flush (d_avail_out d) of (ret, written, z) \<Rightarrow>
        (ret, d\<lparr>d_strm := z, d_output := d_output d @ written,
                d_avail_out := d_avail_out d - of_nat (length written)\<rparr>))"

text \<open>
  The three nested loops, from the inside: \<open>deflate_grow\<close> makes room while zlib has too little,
  \<open>deflate_fill\<close> repeats until zlib leaves some room, \<open>deflate_all\<close> repeats unless everything was
  handed over. An error code of zlib (\<open>Inl\<close> in the value) ends them all. A failed \<^verbatim>\<open>realloc\<close>
  leaves a null pointer to which the old offset is added.
\<close>

partial_function (option) deflate_grow ::
  "'z zlib \<Rightarrow> int \<Rightarrow> int \<Rightarrow> 'z deflating \<Rightarrow> (int \<times> 'z deflating) result option"
where
  "deflate_grow Z flush ret d =
     (if ret \<noteq> Z_BUF_ERROR then Some (Inr (ret, d))
      else if \<not> realloc_ok Z (d_output_size d + 64)
      then Some (Inl (UndefinedBehaviour ''offset of a null pointer''))
      else (case deflate_call Z flush
                   (d\<lparr>d_avail_out := d_avail_out d + 64, d_output_size := d_output_size d + 64\<rparr>) of
              (ret', d') \<Rightarrow> deflate_grow Z flush ret' d'))"

partial_function (option) deflate_fill ::
  "'z zlib \<Rightarrow> int \<Rightarrow> 'z deflating \<Rightarrow> ('z deflating + 'z deflating) result option"
where
  "deflate_fill Z flush d =
     (case deflate_call Z flush d of (ret, d1) \<Rightarrow>
        Option.bind (deflate_grow Z flush ret d1) (\<lambda>r.
          (case r of
             Inl e \<Rightarrow> Some (Inl e)
           | Inr (ret', d2) \<Rightarrow>
               (if ret' \<noteq> Z_STREAM_END \<and> ret' \<noteq> Z_OK then Some (Inr (Inl d2))
                else if d_avail_out d2 = 0 then deflate_fill Z flush d2
                else Some (Inr (Inr d2))))))"

partial_function (option) deflate_all ::
  "'z zlib \<Rightarrow> int \<Rightarrow> 'z deflating \<Rightarrow> ('z deflating + 'z deflating) result option"
where
  "deflate_all Z flush d =
     Option.bind (deflate_fill Z flush d) (\<lambda>r.
       (case r of
          Inl e \<Rightarrow> Some (Inl e)
        | Inr (Inl d') \<Rightarrow> Some (Inr (Inl d'))
        | Inr (Inr d') \<Rightarrow>
            (case d'\<lparr>d_output_size := d_output_size d' - ucast (d_avail_out d')\<rparr> of d'' \<Rightarrow>
              (if flush \<noteq> Z_FINISH then deflate_all Z flush d'' else Some (Inr (Inr d''))))))"

declare deflate_grow.simps [code] deflate_fill.simps [code] deflate_all.simps [code]

text \<open>
  \<open>Compress\<close> leaves its return code, \<^verbatim>\<open>*output\<close> and \<^verbatim>\<open>*output_size\<close>. zlib refuses a null
  output buffer as an inconsistent stream, so that a failed first \<^verbatim>\<open>realloc\<close> ends in the error
  branch.
\<close>

definition Compress :: "'z zlib \<Rightarrow> bytes \<Rightarrow> bytes option \<Rightarrow> u64 \<Rightarrow> inflated result option" where
  "Compress Z data output output_size =
     (let (ret, z) = deflateInit Z Z_DEFAULT_COMPRESSION;
          avail_in = unat (of_nat (length data) :: u32);
          flush = (if avail_in = length data then Z_FINISH else Z_NO_FLUSH);
          strm = deflate_input Z z (take avail_in data)
      in if ret \<noteq> Z_OK then Some (Inr (ret, output, output_size))
         else if \<not> realloc_ok Z 64 then Some (Inr (deflateEnd Z strm, None, 64))
         else Option.bind
           (deflate_all Z flush \<lparr>d_strm = strm, d_output = [], d_avail_out = 64, d_output_size = 64\<rparr>)
           (\<lambda>r. Some (bindR r (\<lambda>end.
              (case end of
                 Inl d \<Rightarrow> Inr (deflateEnd Z (d_strm d), Some (d_output d), d_output_size d)
               | Inr d \<Rightarrow>
                   Inr (Z_OK, if realloc_ok Z (d_output_size d) then Some (d_output d) else None,
                        d_output_size d))))))"

text \<open>
  What zlib documents of \<open>deflate\<close> with \<^verbatim>\<open>Z_FINISH\<close>: there is an output still to come
  (\<open>rest\<close>); a call writes as much of it as there is room for. Without room there is no progress;
  with enough room the stream ends; otherwise the call has to be repeated with more room.
\<close>

definition deflates :: "'z zlib \<Rightarrow> ('z \<Rightarrow> bytes) \<Rightarrow> bool" where
  "deflates Z rest \<longleftrightarrow>
     (\<forall>z n. case deflate Z z Z_FINISH n of (ret, written, z') \<Rightarrow>
        written = take (unat n) (rest z) \<and> rest z' = drop (unat n) (rest z) \<and>
        (if n = 0 then ret = Z_BUF_ERROR
         else if length (rest z) \<le> unat n then ret = Z_STREAM_END
         else ret \<in> {Z_OK, Z_BUF_ERROR}))"

text \<open>
  What the loops keep: the bytes written and the bytes to come make up the whole output, the room
  is at most one chunk, and the size of the buffer is the bytes written and the room.
\<close>

definition deflating_ok :: "('z \<Rightarrow> bytes) \<Rightarrow> bytes \<Rightarrow> 'z deflating \<Rightarrow> bool" where
  "deflating_ok rest whole d \<longleftrightarrow>
     d_output d @ rest (d_strm d) = whole \<and> unat (d_avail_out d) \<le> 64 \<and>
     d_output_size d = of_nat (length (d_output d)) + ucast (d_avail_out d)"

lemma deflate_call_ok:
  assumes law: "deflates Z rest" and ok: "deflating_ok rest whole d"
    and call: "deflate_call Z Z_FINISH d = (ret, d')"
  shows "deflating_ok rest whole d'"
    and "rest (d_strm d') = drop (unat (d_avail_out d)) (rest (d_strm d))"
    and "unat (d_avail_out d') = unat (d_avail_out d) - length (rest (d_strm d))"
    and "if d_avail_out d = 0 then ret = Z_BUF_ERROR
         else if length (rest (d_strm d)) \<le> unat (d_avail_out d) then ret = Z_STREAM_END
         else ret \<in> {Z_OK, Z_BUF_ERROR}"
proof -
  obtain r w z where def: "deflate Z (d_strm d) Z_FINISH (d_avail_out d) = (r, w, z)"
    by (cases "deflate Z (d_strm d) Z_FINISH (d_avail_out d)") auto
  let ?n = "unat (d_avail_out d)"
  from law [unfolded deflates_def, THEN spec [of _ "d_strm d"], THEN spec [of _ "d_avail_out d"]] def
  have w: "w = take ?n (rest (d_strm d))" and z: "rest z = drop ?n (rest (d_strm d))"
    and r: "if d_avail_out d = 0 then r = Z_BUF_ERROR
         else if length (rest (d_strm d)) \<le> ?n then r = Z_STREAM_END else r \<in> {Z_OK, Z_BUF_ERROR}"
    by auto
  from call def have d': "ret = r"
    "d' = d\<lparr>d_strm := z, d_output := d_output d @ w, d_avail_out := d_avail_out d - of_nat (length w)\<rparr>"
    by (simp_all add: deflate_call_def)
  have le: "length w \<le> ?n" using w by simp
  have avail: "d_avail_out d - of_nat (length w) = of_nat (?n - length w)"
    using le by (simp add: of_nat_diff)
  have small: "?n - length w < 2 ^ 32"
    using unsigned_less [of "d_avail_out d", where ?'a = nat] by simp
  have un: "unat (d_avail_out d - of_nat (length w)) = ?n - length w"
    using small unfolding avail by (intro unat_of_nat_less) simp
  have uc: "(ucast (d_avail_out d - of_nat (length w)) :: u64) = of_nat (?n - length w)"
    using small unfolding avail by (intro ucast_of_nat_less) simp
  have whole: "(ucast (d_avail_out d) :: u64) = of_nat ?n" by simp
  show "deflating_ok rest whole d'"
    using ok un uc le w z by (auto simp: deflating_ok_def d' whole of_nat_diff simp del: of_nat_unat)
  show "rest (d_strm d') = drop (unat (d_avail_out d)) (rest (d_strm d))"
    by (simp add: d' z)
  show "unat (d_avail_out d') = unat (d_avail_out d) - length (rest (d_strm d))"
    using un w by (simp add: d')
  show "if d_avail_out d = 0 then ret = Z_BUF_ERROR
         else if length (rest (d_strm d)) \<le> unat (d_avail_out d) then ret = Z_STREAM_END
         else ret \<in> {Z_OK, Z_BUF_ERROR}"
    using r unfolding d'(1) .
qed

lemma deflate_grow_ok:
  assumes law: "deflates Z rest" and mem: "\<forall>n. realloc_ok Z n"
  shows "deflating_ok rest whole d \<Longrightarrow> d_avail_out d = 0 \<Longrightarrow>
    \<exists>ret d'. deflate_grow Z Z_FINISH Z_BUF_ERROR d = Some (Inr (ret, d')) \<and> ret \<in> {Z_OK, Z_STREAM_END}
      \<and> deflating_ok rest whole d' \<and> (d_avail_out d' \<noteq> 0 \<longrightarrow> rest (d_strm d') = [])
      \<and> (d_avail_out d' = 0 \<longrightarrow> length (rest (d_strm d')) < length (rest (d_strm d)))"
proof (induction "length (rest (d_strm d))" arbitrary: d rule: less_induct)
  case less
  let ?d = "d\<lparr>d_avail_out := 64, d_output_size := d_output_size d + 64\<rparr>"
  obtain ret d1 where call: "deflate_call Z Z_FINISH ?d = (ret, d1)"
    by (cases "deflate_call Z Z_FINISH ?d") auto
  have "deflating_ok rest whole ?d"
    using less.prems by (simp add: deflating_ok_def)
  note c = deflate_call_ok [OF law this call, simplified]
  have step: "deflate_grow Z Z_FINISH Z_BUF_ERROR d = deflate_grow Z Z_FINISH ret d1"
    using mem call less.prems(2) by (subst deflate_grow.simps) simp
  show ?case
  proof (cases "ret = Z_BUF_ERROR")
    case True
    with c(4) have long: "64 < length (rest (d_strm d))" by (auto split: if_splits)
    with c(2,3) have smaller: "length (rest (d_strm d1)) < length (rest (d_strm d))" and "d_avail_out d1 = 0"
      by (simp_all add: unat_eq_zero)
    from less.hyps [OF this(1) c(1) this(2)] smaller show ?thesis
      unfolding step True by (meson less_trans)
  next
    case False
    then have "deflate_grow Z Z_FINISH ret d1 = Some (Inr (ret, d1))"
      by (subst deflate_grow.simps) simp
    moreover have "rest (d_strm d1) = []" if "d_avail_out d1 \<noteq> 0"
    proof -
      from that have "unat (d_avail_out d1) \<noteq> 0" by (simp add: unat_eq_zero)
      with c(2,3) show ?thesis by simp
    qed
    moreover have "length (rest (d_strm d1)) < length (rest (d_strm d))" if "d_avail_out d1 = 0"
      using c(2,3) that by simp
    ultimately show ?thesis
      using c(1,4) False by (auto simp: step split: if_splits)
  qed
qed

lemma deflate_fill_ok:
  assumes law: "deflates Z rest" and mem: "\<forall>n. realloc_ok Z n"
  shows "deflating_ok rest whole d \<Longrightarrow>
    \<exists>d'. deflate_fill Z Z_FINISH d = Some (Inr (Inr d')) \<and> deflating_ok rest whole d' \<and> rest (d_strm d') = []"
proof (induction "(length (rest (d_strm d)), unat (d_avail_out d))" arbitrary: d
    rule: wf_induct_rule [OF wf_lex_prod [OF wf_less_than wf_less_than]])
  case (1 d)
  obtain ret d1 where call: "deflate_call Z Z_FINISH d = (ret, d1)"
    by (cases "deflate_call Z Z_FINISH d") auto
  note c = deflate_call_ok [OF law 1(2) call]
  have again: "\<exists>d'. deflate_fill Z Z_FINISH d2 = Some (Inr (Inr d')) \<and> deflating_ok rest whole d' \<and> rest (d_strm d') = []"
    if "deflating_ok rest whole d2" "length (rest (d_strm d2)) < length (rest (d_strm d))
        \<or> length (rest (d_strm d2)) = length (rest (d_strm d)) \<and> unat (d_avail_out d2) < unat (d_avail_out d)" for d2
    using 1(1) [of d2] that by auto
  show ?case
  proof (cases "ret = Z_BUF_ERROR")
    case True
    with c(3,4) have "d_avail_out d1 = 0"
      by (auto simp flip: unat_eq_zero split: if_splits)
    from deflate_grow_ok [OF law mem c(1) this]
    obtain ret' d2 where grow: "deflate_grow Z Z_FINISH Z_BUF_ERROR d1 = Some (Inr (ret', d2))"
      and ret': "ret' \<in> {Z_OK, Z_STREAM_END}" and d2: "deflating_ok rest whole d2"
      and full: "d_avail_out d2 \<noteq> 0 \<longrightarrow> rest (d_strm d2) = []"
      and less: "d_avail_out d2 = 0 \<longrightarrow> length (rest (d_strm d2)) < length (rest (d_strm d1))" by auto
    have "deflate_fill Z Z_FINISH d = (if d_avail_out d2 = 0 then deflate_fill Z Z_FINISH d2 else Some (Inr (Inr d2)))"
      using call grow ret' True by (subst deflate_fill.simps) auto
    moreover have "length (rest (d_strm d2)) < length (rest (d_strm d))" if "d_avail_out d2 = 0"
      using less that c(2) by simp
    ultimately show ?thesis
      using again [OF d2 disjI1] full d2 by (cases "d_avail_out d2 = 0") simp_all
  next
    case False
    then have "deflate_grow Z Z_FINISH ret d1 = Some (Inr (ret, d1))"
      by (subst deflate_grow.simps) simp
    with False c(4) call have fill: "deflate_fill Z Z_FINISH d =
        (if d_avail_out d1 = 0 then deflate_fill Z Z_FINISH d1 else Some (Inr (Inr d1)))"
      by (subst deflate_fill.simps) (auto split: if_splits)
    have room: "0 < unat (d_avail_out d)"
      using False c(4) by (auto simp flip: unat_eq_zero split: if_splits)
    show ?thesis
    proof (cases "d_avail_out d1 = 0")
      case True
      with c(3) room have "length (rest (d_strm d1)) < length (rest (d_strm d))"
        using c(2) by (cases "rest (d_strm d) = []") simp_all
      from again [OF c(1) disjI1 [OF this]] True fill show ?thesis by simp
    next
      case False
      then have "unat (d_avail_out d1) \<noteq> 0" by (simp add: unat_eq_zero)
      with c(1-3) fill False show ?thesis by auto
    qed
  qed
qed

lemma deflate_all_ok:
  assumes "deflates Z rest" and "\<forall>n. realloc_ok Z n" and "deflating_ok rest whole d"
  shows "\<exists>d'. deflate_all Z Z_FINISH d = Some (Inr (Inr d')) \<and> d_output d' = whole
    \<and> d_output_size d' = of_nat (length whole)"
proof -
  from deflate_fill_ok [OF assms] obtain d' where "deflate_fill Z Z_FINISH d = Some (Inr (Inr d'))"
    and "deflating_ok rest whole d'" and "rest (d_strm d') = []" by auto
  then show ?thesis
    by (subst deflate_all.simps) (auto simp: deflating_ok_def)
qed

lemma Compress_good:
  assumes "deflates Z rest" and "\<forall>n. realloc_ok Z n"
    and "deflateInit Z Z_DEFAULT_COMPRESSION = (Z_OK, z)" and "length data < 2 ^ 32"
  shows "Compress Z data out sz =
     Some (Inr (Z_OK, Some (rest (deflate_input Z z data)), of_nat (length (rest (deflate_input Z z data)))))"
proof -
  let ?d = "\<lparr>d_strm = deflate_input Z z data, d_output = [], d_avail_out = 64, d_output_size = 64\<rparr>"
  have "unat (of_nat (length data) :: u32) = length data"
    using assms(4) by (intro unat_of_nat_less) simp
  moreover have "deflating_ok rest (rest (deflate_input Z z data)) ?d"
    by (simp add: deflating_ok_def)
  then obtain d where "deflate_all Z Z_FINISH ?d = Some (Inr (Inr d))"
    and "d_output d = rest (deflate_input Z z data)"
    and "d_output_size d = of_nat (length (rest (deflate_input Z z data)))"
    using deflate_all_ok [OF assms(1,2)] by blast
  ultimately show ?thesis
    using assms(2,3) by (simp add: Compress_def)
qed


text \<open>
  A zlib for examples: the compressed form of some data is a header of two bytes, as
  \<open>IsCompressed\<close> looks for, and the data; a stream is the output to come.
\<close>

definition stored_zlib :: "bytes zlib" where
  "stored_zlib = tripling_zlib
     \<lparr>inflate_input := (\<lambda>_ bs. drop 2 bs),
      deflate_input := (\<lambda>_ bs. [0x78, 0x9C] @ bs),
      deflate := (\<lambda>z _ n. (if n = 0 then Z_BUF_ERROR else if length z \<le> unat n then Z_STREAM_END else Z_OK,
                          take (unat n) z, drop (unat n) z))\<rparr>"

lemma stored_zlib_laws: "deflates stored_zlib (\<lambda>z. z)" "inflates stored_zlib (\<lambda>z. z)"
  by (simp_all add: deflates_def inflates_def stored_zlib_def tripling_zlib_def)


end
