(* ===== verification/Message.thy ===== *)
theory Message
  imports Gzip
begin

text \<open>
  \<^verbatim>\<open>include/pitaya/protocol/message.h\<close> and \<^verbatim>\<open>src/protocol/message.cpp\<close>: the messages inside
  data packets. A message starts with a flag byte (route compression, type, gzip and error bits),
  then a base-128 id for requests and responses, the route for routable types, and the data.
  The 32-bit \<^verbatim>\<open>int\<close> route codes are words in two's complement.
\<close>

type_synonym i32 = "32 word"

section \<open>Data\<close>

abbreviation (input) kMessageErrorMask :: u8 where "kMessageErrorMask \<equiv> 32"
abbreviation (input) kMessageGzipMask :: u8 where "kMessageGzipMask \<equiv> 16"
abbreviation (input) kMessageTypeMask :: u8 where "kMessageTypeMask \<equiv> 7"
abbreviation (input) kMessageRouteCompressionMask :: u8 where "kMessageRouteCompressionMask \<equiv> 1"
abbreviation (input) kMessageHeaderLength :: nat where "kMessageHeaderLength \<equiv> 2"

datatype MessageType = Request | Notify | Response | Push

fun MessageType_value :: "MessageType \<Rightarrow> u8" where
  "MessageType_value Request = 0"
| "MessageType_value Notify = 1"
| "MessageType_value Response = 2"
| "MessageType_value Push = 3"

text \<open>\<^verbatim>\<open>static_cast<MessageType>(type)\<close> for the values that passed \<open>IsMessageTypeInvalid\<close>.\<close>

definition MessageType_cast :: "u8 \<Rightarrow> MessageType" where
  "MessageType_cast t =
     (if t = 0 then Request else if t = 1 then Notify else if t = 2 then Response else Push)"

record Message =
  m_type :: MessageType
  m_id :: u64
  m_route :: string
  m_data :: bytes
  m_error :: bool

definition IsMessageTypeRoutable :: "MessageType \<Rightarrow> bool" where
  "IsMessageTypeRoutable t \<longleftrightarrow> t = Request \<or> t = Notify \<or> t = Push"

definition IsMessageTypeInvalid :: "u8 \<Rightarrow> bool" where
  "IsMessageTypeInvalid t \<longleftrightarrow> t > 3"

definition has_id :: "MessageType \<Rightarrow> bool" where
  "has_id t \<longleftrightarrow> t = Request \<or> t = Response"

text \<open>The factory value-initialises a message and never stores the data it is given.\<close>

definition NewRequest :: "u64 \<Rightarrow> string \<Rightarrow> bytes \<Rightarrow> Message" where
  "NewRequest i route data =
     \<lparr>m_type = Request, m_id = i, m_route = route, m_data = [], m_error = False\<rparr>"

section \<open>Serialization\<close>

text \<open>The loop that writes the id, low seven bits first, with the high bit set on all bytes but the last.\<close>

function encode_id :: "u64 \<Rightarrow> bytes" where
  "encode_id n =
     (if drop_bit 7 n \<noteq> 0 then (ucast (n mod 128) + 128) # encode_id (drop_bit 7 n)
      else [ucast (n mod 128)])"
  by pat_completeness auto
termination
proof (relation "measure unat")
  show "wf (measure (unat :: u64 \<Rightarrow> nat))" by simp
next
  fix n :: u64
  assume *: "drop_bit 7 n \<noteq> 0"
  then have "unat n \<noteq> 0" by (metis drop_bit_of_0 unat_eq_zero)
  then have "unat n div 128 < unat n" by simp
  moreover have "unat (drop_bit 7 n) = unat n div 128"
    by (simp add: drop_bit_eq_div unat_div)
  ultimately show "(drop_bit 7 n, n) \<in> measure unat" by simp
qed

declare encode_id.simps [simp del]

definition message_flag :: "bool \<Rightarrow> bool \<Rightarrow> u8" where
  "message_flag isRouteCompressed error =
     (let flag = (if isRouteCompressed then 0 OR kMessageRouteCompressionMask else 0)
      in (if error then flag OR kMessageErrorMask else flag))"

definition Message_SerializeInto :: "Message \<Rightarrow> bytes \<Rightarrow> (string, i32) umap \<Rightarrow> bytes result" where
  "Message_SerializeInto m buf routeDict =
     (let isRouteCompressed = (um_find routeDict (m_route m) \<noteq> None) in
      bindR (um_at routeDict (m_route m)) (\<lambda>code.
      Inr (buf @ [message_flag isRouteCompressed (m_error m)]
        @ (if has_id (m_type m) then encode_id (m_id m) else [])
        @ (if IsMessageTypeRoutable (m_type m)
           then (if isRouteCompressed
                 then [ucast (signed_drop_bit 8 code AND 255), ucast (code AND 255)]
                 else of_nat (length (m_route m)) # bytes_of_string (m_route m))
           else [])
        @ m_data m)))"

section \<open>Deserialization\<close>

text \<open>
  The loop that reads the id. A shift of a 64-bit value by 64 or more is undefined; when the buffer
  ends before a byte below 128, the offset stays where it was.
\<close>

function decode_id_loop :: "bytes \<Rightarrow> nat \<Rightarrow> nat \<Rightarrow> u64 \<Rightarrow> (u64 \<times> nat) result" where
  "decode_id_loop buf offset i acc =
     (if i < length buf
      then (if 7 * (i - offset) \<ge> 64 then Inl (UndefinedBehaviour ''shift'')
            else (let acc' = acc + push_bit (7 * (i - offset)) (ucast (buf ! i AND 0x7F))
                  in if buf ! i < 128 then Inr (acc', i + 1)
                     else decode_id_loop buf offset (i + 1) acc'))
      else Inr (acc, offset))"
  by pat_completeness auto
termination
  by (relation "measure (\<lambda>(buf, offset, i, acc). length buf - i)") auto

declare decode_id_loop.simps [simp del]

text \<open>
  The route, with the offset behind it; \<open>None\<close> for a code that is not in the dictionary. The
  compressed code goes through a \<^verbatim>\<open>uint8_t\<close>. The other branch calls the constructor
  \<^verbatim>\<open>std::string(count, char)\<close>.
\<close>

definition read_route ::
  "bytes \<Rightarrow> (i32, string) umap \<Rightarrow> u8 \<Rightarrow> nat \<Rightarrow> (string \<times> nat) option result"
where
  "read_route buf codeToRoute flag offset =
     (if flag AND kMessageRouteCompressionMask = 1
      then bindR (rd buf offset) (\<lambda>hi. bindR (rd buf (offset + 1)) (\<lambda>lo.
        let code = ucast (push_bit 8 (ucast hi) OR ucast lo :: i32) :: u8
        in (case um_find codeToRoute (ucast code) of
              None \<Rightarrow> Inr None
            | Some r \<Rightarrow> Inr (Some (r, offset + 2)))))
      else bindR (rd buf offset) (\<lambda>routeLength. bindR (rd buf (offset + 1)) (\<lambda>count.
        Inr (Some (replicate (unat count) (char_of (unat routeLength)),
                   offset + 1 + unat routeLength)))))"

text \<open>The bytes \<^verbatim>\<open>[output, output + size)\<close> a caller takes out of a finished decompression.\<close>

definition inflated_bytes :: "bytes option \<Rightarrow> u64 \<Rightarrow> bytes result" where
  "inflated_bytes output n =
     (case output of
        None \<Rightarrow> (if n = 0 then Inr [] else Inl (UndefinedBehaviour ''null buffer''))
      | Some bs \<Rightarrow> (if unat n \<le> length bs then Inr (take (unat n) bs)
                    else Inl (UndefinedBehaviour ''uninitialised buffer'')))"

definition read_data :: "'z zlib \<Rightarrow> bytes \<Rightarrow> u8 \<Rightarrow> nat \<Rightarrow> bytes option result" where
  "read_data Z buf flag offset =
     (if flag AND kMessageGzipMask = kMessageGzipMask
      then bindR (rd buf offset) (\<lambda>_.
        (case Decompress Z (drop offset buf) 0 of
           None \<Rightarrow> Inl Diverges
         | Some (rc, output, n) \<Rightarrow>
             (if rc \<noteq> 0 then Inr None
              else bindR (inflated_bytes output n) (\<lambda>bs. Inr (Some bs)))))
      else (if offset \<le> length buf then Inr (Some (drop offset buf))
            else Inl (UndefinedBehaviour ''vector range'')))"

definition Deserialize ::
  "'z zlib \<Rightarrow> bytes \<Rightarrow> (i32, string) umap \<Rightarrow> Message option result"
where
  "Deserialize Z buf codeToRoute =
     (if length buf < kMessageHeaderLength then Inr None
      else
        (let flag = buf ! 0;
             type = drop_bit 1 flag AND kMessageTypeMask
         in if IsMessageTypeInvalid type then Inr None
            else (let t = MessageType_cast type in
              bindR (if has_id t then decode_id_loop buf 1 1 0 else Inr (0, 1)) (\<lambda>(i, offset).
              bindR (if IsMessageTypeRoutable t then read_route buf codeToRoute flag offset
                     else Inr (Some ([], offset))) (\<lambda>r.
              (case r of
                 None \<Rightarrow> Inr None
               | Some (route, offset') \<Rightarrow>
                   bindR (read_data Z buf flag offset') (\<lambda>d.
                   (case d of
                      None \<Rightarrow> Inr None
                    | Some bs \<Rightarrow>
                        Inr (Some \<lparr>m_type = t, m_id = i, m_route = route, m_data = bs,
                                   m_error = (flag AND kMessageErrorMask = kMessageErrorMask)\<rparr>)))))))))"

section \<open>The id codec\<close>

lemma low7_of_nat:
  assumes "m < 128"
  shows "ucast ((of_nat m :: u8) AND 127) = (of_nat m :: u64)"
    and "ucast ((of_nat m + 128 :: u8) AND 127) = (of_nat m :: u64)"
    and "(of_nat m :: u8) < 128" and "\<not> (of_nat m + 128 :: u8) < 128"
proof -
  have a: "x AND 127 = take_bit 7 x" for x :: u8
    by (simp add: take_bit_eq_mask mask_eq_exp_minus_1)
  have s: "of_nat m + 128 = (of_nat (m + 128) :: u8)" by simp
  have t: "take_bit 7 m = m" and t': "take_bit 7 (m + 128) = m"
    using assms by (simp_all add: take_bit_eq_mod)
  show "ucast ((of_nat m :: u8) AND 127) = (of_nat m :: u64)"
    using assms by (simp only: a take_bit_of_nat t) (simp add: ucast_of_nat_less)
  show "ucast ((of_nat m + 128 :: u8) AND 127) = (of_nat m :: u64)"
    using assms by (simp only: a s take_bit_of_nat t') (simp add: ucast_of_nat_less)
  show "(of_nat m :: u8) < 128"
    using assms by (simp add: word_less_nat_alt unat_of_nat_less)
  have "unat (of_nat (m + 128) :: u8) = m + 128"
    using assms by (intro unat_of_nat_less) simp
  then show "\<not> (of_nat m + 128 :: u8) < 128"
    unfolding s by (simp add: word_less_nat_alt)
qed

lemma low7_word:
  fixes n :: u64
  shows "n mod 128 = of_nat (unat n mod 128)" and "(ucast (n mod 128) :: u8) = of_nat (unat n mod 128)"
proof -
  have "n mod 128 = of_nat (unat (n mod 128))" by simp
  then show w: "n mod 128 = of_nat (unat n mod 128)" by (simp only: unat_mod) simp
  have "unat n mod 128 < 128" by simp
  then show "(ucast (n mod 128) :: u8) = of_nat (unat n mod 128)"
    unfolding w by (intro ucast_of_nat_less) simp
qed

lemma id_byte:
  fixes n :: u64
  shows "ucast ((ucast (n mod 128) :: u8) AND 127) = n mod 128"
    and "ucast ((ucast (n mod 128) + 128 :: u8) AND 127) = n mod 128"
    and "(ucast (n mod 128) :: u8) < 128" and "\<not> (ucast (n mod 128) + 128 :: u8) < 128"
  using low7_of_nat [of "unat n mod 128"]
  by (simp_all only: low7_word(2) low7_word(1) [symmetric] mod_less_divisor zero_less_numeral simp_thms)

lemma push_bit_low7:
  fixes n :: u64
  shows "push_bit s (n mod 128) + push_bit (s + 7) (drop_bit 7 n) = push_bit s n"
proof -
  have "push_bit s (n mod 128) + push_bit (s + 7) (drop_bit 7 n) = (n mod 128 + 128 * (n div 128)) * 2 ^ s"
    by (simp add: push_bit_eq_mult drop_bit_eq_div power_add algebra_simps)
  then show ?thesis by (simp only: mod_mult_div_eq push_bit_eq_mult)
qed

lemma drop7_room:
  fixes n :: u64
  assumes "drop_bit 7 n \<noteq> 0" and "unat n < 2 ^ (64 - k)" and "k < 64"
  shows "k + 7 < 64" and "unat (drop_bit 7 n) < 2 ^ (64 - (k + 7))"
proof -
  have d: "unat (drop_bit 7 n) = unat n div 128"
    by (simp add: drop_bit_eq_div unat_div)
  with assms(1) have "unat n div 128 \<noteq> 0" by (metis unat_eq_zero)
  then have "2 ^ 7 \<le> unat n" by (simp add: div_eq_0_iff)
  with assms(2) have "(2::nat) ^ 7 < 2 ^ (64 - k)" by linarith
  then have "7 < 64 - k" by (simp only: power_strict_increasing_iff)
  then show k: "k + 7 < 64" by simp
  then have e: "64 - k = (64 - (k + 7)) + 7" by simp
  have "(2::nat) ^ (64 - k) = 2 ^ (64 - (k + 7)) * 128"
    by (simp only: e power_add) simp
  with assms(2) show "unat (drop_bit 7 n) < 2 ^ (64 - (k + 7))"
    unfolding d by (simp add: less_mult_imp_div_less)
qed

lemma decode_encode_id_loop:
  "7 * length mid < 64 \<Longrightarrow> unat n < 2 ^ (64 - 7 * length mid) \<Longrightarrow>
   decode_id_loop (pre @ mid @ encode_id n @ r) (length pre) (length pre + length mid) acc =
   Inr (acc + push_bit (7 * length mid) n, length pre + length mid + length (encode_id n))"
proof (induction n arbitrary: mid acc rule: encode_id.induct)
  case (1 n)
  show ?case
  proof (cases "drop_bit 7 n = 0")
    case True
    then have e: "encode_id n = [ucast (n mod 128)]" by (simp add: encode_id.simps)
    have "push_bit (7 * length mid) (n mod 128) = push_bit (7 * length mid) n"
      using push_bit_low7 [of "7 * length mid" n] True by simp
    with 1(2) show ?thesis
      by (subst decode_id_loop.simps) (simp add: e nth_append id_byte)
  next
    case False
    then have e: "encode_id n = (ucast (n mod 128) + 128) # encode_id (drop_bit 7 n)"
      by (subst encode_id.simps) simp
    let ?mid = "mid @ [ucast (n mod 128) + 128 :: u8]"
    from drop7_room [OF False 1(3) 1(2)]
    have "7 * length ?mid < 64" and "unat (drop_bit 7 n) < 2 ^ (64 - 7 * length ?mid)"
      by simp_all
    then have IH: "decode_id_loop (pre @ ?mid @ encode_id (drop_bit 7 n) @ r) (length pre)
        (length pre + length ?mid) (acc + push_bit (7 * length mid) (n mod 128)) =
      Inr (acc + push_bit (7 * length mid) (n mod 128) + push_bit (7 * length ?mid) (drop_bit 7 n),
           length pre + length ?mid + length (encode_id (drop_bit 7 n)))"
      by (rule 1(1) [OF False])
    have s: "push_bit (7 * length mid) (n mod 128) + push_bit (7 * length ?mid) (drop_bit 7 n) = push_bit (7 * length mid) n"
      using push_bit_low7 [of "7 * length mid" n] by (simp add: algebra_simps)
    show ?thesis
      using 1(2) IH s
      by (subst decode_id_loop.simps) (simp add: e nth_append id_byte add.assoc)
  qed
qed

definition decode_id :: "bytes \<Rightarrow> (u64 \<times> bytes) option" where
  "decode_id bs =
     (case decode_id_loop bs 0 0 0 of
        Inl _ \<Rightarrow> None
      | Inr (n, offset) \<Rightarrow> (if offset = 0 then None else Some (n, drop offset bs)))"

lemma encode_id_not_Nil [simp]: "encode_id n \<noteq> []" "0 < length (encode_id n)"
  by (subst encode_id.simps, simp)+

lemma decode_encode_id:
  "decode_id_loop (pre @ encode_id n @ r) (length pre) (length pre) 0 =
   Inr (n, length pre + length (encode_id n))"
proof -
  have "unat n < 2 ^ 64" using unsigned_less [of n, where ?'a = nat] by simp
  then show ?thesis using decode_encode_id_loop [of "[]" n pre r 0] by simp
qed

interpretation id_codec: prefix_codec encode_id decode_id "\<lambda>_. True"
proof unfold_locales
  fix x r
  show "decode_id (encode_id x @ r) = Some (x, r)"
    using decode_encode_id [of "[]" x r] by (simp add: decode_id_def)
qed

lemma decode_id_after_flag:
  "decode_id_loop (flag # encode_id n @ r) (Suc 0) (Suc 0) 0 = Inr (n, Suc (length (encode_id n)))"
  using decode_encode_id [of "[flag]" n r] by simp

lemma decode_id_loop_fault:
  "k \<le> 10 \<Longrightarrow> (\<exists>e. decode_id_loop buf off (off + k) acc = Inl e) \<longleftrightarrow>
     off + 10 < length buf \<and> (\<forall>j. k \<le> j \<longrightarrow> j < 10 \<longrightarrow> \<not> buf ! (off + j) < 128)"
proof (induction "10 - k" arbitrary: k acc)
  case 0
  then show ?case by (subst decode_id_loop.simps) auto
next
  case (Suc m)
  then have k: "k < 10" "m = 10 - Suc k" by simp_all
  have split: "(\<forall>j. k \<le> j \<longrightarrow> j < 10 \<longrightarrow> P j) \<longleftrightarrow> P k \<and> (\<forall>j. Suc k \<le> j \<longrightarrow> j < 10 \<longrightarrow> P j)" for P
    using k(1) by (metis Suc_leI le_neq_implies_less le_refl Suc_leD)
  show ?case
  proof (cases "off + k < length buf \<and> \<not> buf ! (off + k) < 128")
    case True
    with k Suc.hyps(1) [of "Suc k" "acc + push_bit (7 * k) (ucast (buf ! (off + k) AND 127))"]
    show ?thesis
      by (subst decode_id_loop.simps) (simp add: split)
  next
    case False
    with k show ?thesis
      by (subst decode_id_loop.simps) (auto simp: split Let_def)
  qed
qed

lemma decode_id_loop_offset:
  "off \<le> length buf \<Longrightarrow> decode_id_loop buf off i acc = Inr (n, off') \<Longrightarrow> off' \<le> length buf"
proof (induction buf off i acc rule: decode_id_loop.induct)
  case (1 buf off i acc)
  then show ?case
    by (subst (asm) decode_id_loop.simps [of buf off i acc])
      (auto simp: Let_def split: if_splits)
qed

lemma low_byte_of_code:
  fixes hi lo :: u8
  shows "(ucast (push_bit 8 (ucast hi) OR ucast lo :: i32) :: u8) = lo"
  by (rule bit_word_eqI) (auto simp: bit_simps)

lemma code_low_byte: "(ucast (ucast (code AND 255) :: u8) :: i32) = code AND 255"
proof -
  have a: "code AND 255 = take_bit 8 code" by (simp add: take_bit_eq_mask mask_eq_exp_minus_1)
  show ?thesis
    unfolding a by (rule bit_word_eqI) (auto simp: bit_simps)
qed

lemma serialize_request:
  "um_find d route = Some code \<Longrightarrow>
   Message_SerializeInto (NewRequest i route bs) buf d =
     Inr (buf @ 1 # encode_id i @ [ucast (signed_drop_bit 8 code AND 255), ucast (code AND 255)])"
  by (simp add: Message_SerializeInto_def NewRequest_def um_at_conv message_flag_def has_id_def
      IsMessageTypeRoutable_def)

lemma deserialize_request:
  fixes code :: i32
  shows "Deserialize Z (1 # encode_id i @ [hi, ucast (code AND 255)]) c =
     Inr (map_option (\<lambda>r. \<lparr>m_type = Request, m_id = i, m_route = r, m_data = [], m_error = False\<rparr>)
       (um_find c (code AND 255)))"
proof -
  let ?buf = "1 # encode_id i @ [hi, ucast (code AND 255)]"
  have n: "?buf ! Suc (length (encode_id i)) = hi"
    "?buf ! Suc (Suc (length (encode_id i))) = ucast (code AND 255)"
    by (simp_all add: nth_append)
  have route: "read_route ?buf c 1 (Suc (length (encode_id i))) =
      Inr (map_option (\<lambda>r. (r, Suc (length (encode_id i)) + 2)) (um_find c (code AND 255)))"
    using n by (simp add: read_route_def low_byte_of_code code_low_byte split: option.split)
  have "\<not> length ?buf < 2" by simp
  then show ?thesis
    by (auto simp: Deserialize_def IsMessageTypeInvalid_def MessageType_cast_def has_id_def
        IsMessageTypeRoutable_def decode_id_after_flag route read_data_def split: option.split)
qed

lemma deserialize_response:
  assumes "flag = 4 \<or> flag = 36"
  shows "Deserialize Z (flag # encode_id i @ data) c =
     Inr (Some \<lparr>m_type = Response, m_id = i, m_route = [], m_data = data, m_error = (flag = 36)\<rparr>)"
proof -
  have n: "\<not> length (flag # encode_id i @ data) < 2"
    using encode_id_not_Nil(2) [of i] by (simp del: encode_id_not_Nil)
  show ?thesis
    using assms n
    by (auto simp: Deserialize_def IsMessageTypeInvalid_def MessageType_cast_def has_id_def
        IsMessageTypeRoutable_def decode_id_after_flag read_data_def)
qed

text \<open>
  C21: a request built by \<open>NewRequest\<close> for a route that the server's dictionary maps to a one-byte
  code and back survives serialization and deserialization.
\<close>

theorem request_roundtrip:
  assumes "um_find routeDict route = Some code" and "code < 256"
    and "um_find codeToRoute code = Some route"
  shows "\<exists>buf. Message_SerializeInto (NewRequest i route bs) [] routeDict = Inr buf
               \<and> Deserialize Z buf codeToRoute = Inr (Some (NewRequest i route bs))"
proof -
  have "code AND 255 = take_bit 8 code" by (simp add: take_bit_eq_mask mask_eq_exp_minus_1)
  also have "\<dots> = code"
    using assms(2)
    by (simp add: word_unat_eq_iff unsigned_take_bit_eq word_less_nat_alt take_bit_nat_eq_self)
  finally have "code AND 255 = code" .
  with assms(3) show ?thesis
    using serialize_request [OF assms(1), of i bs "[]"] deserialize_request [of Z i _ code codeToRoute]
    by (simp add: NewRequest_def)
qed

text \<open>
  The dictionary code is read back through one byte: whatever code the route has, the reader
  looks up its low byte, so a code of 256 or more is decoded as another route or refused.
\<close>

theorem request_code_low_byte:
  assumes "um_find routeDict route = Some code"
  shows "\<exists>buf. Message_SerializeInto (NewRequest i route bs) [] routeDict = Inr buf
     \<and> Deserialize Z buf codeToRoute =
         Inr (map_option (\<lambda>r. NewRequest i r bs) (um_find codeToRoute (code AND 255)))"
  using serialize_request [OF assms, of i bs "[]"] deserialize_request [of Z i _ code codeToRoute]
  by (simp add: NewRequest_def)

lemma deserialize_plain_response:
  "Deserialize Z ((if err then 36 else 4) # encode_id i @ data) codeToRoute =
   Inr (Some \<lparr>m_type = Response, m_id = i, m_route = [], m_data = data, m_error = err\<rparr>)"
  using deserialize_response [of 4 Z i data codeToRoute]
    deserialize_response [of 36 Z i data codeToRoute] by (cases err) simp_all

text \<open>
  A response as the server sends it (type bits and error bit in the flag, the id in base 128,
  plain data) is decoded to exactly its id, data and error bit, for every 64-bit id.
\<close>

theorem response_decoded:
  "Deserialize Z ((if err then 36 else 4) # encode_id i @ data) codeToRoute =
   Inr (Some \<lparr>m_type = Response, m_id = i, m_route = [], m_data = data, m_error = err\<rparr>)"
  by (rule deserialize_plain_response)

text \<open>
  The id is uniquely readable: two ids whose encodings begin the same bytes are equal, and so
  is what follows them; a sequence of ids is read back in order.
\<close>

theorem encode_id_uniquely_readable:
  "(encode_id m @ r = encode_id n @ r' \<longleftrightarrow> m = n \<and> r = r')
   \<and> decode_n decode_id (length ns) (concat (map encode_id ns) @ r) = Some (ns, r)"
  using id_codec.enc_unique [where x = m and y = n] id_codec.decode_sequence [of ns r] by auto

text \<open>
  C26: \<open>Message_SerializeInto\<close> throws \<^verbatim>\<open>std::out_of_range\<close> exactly for routes that are not in the
  dictionary; otherwise it appends the flag, the id of a request or response, the two code bytes of
  a routable message and the data. The branch that writes a route as text is never taken.
\<close>

theorem Message_SerializeInto_outcome:
  "Message_SerializeInto m buf d =
     (case um_find d (m_route m) of
        None \<Rightarrow> Inl OutOfRange
      | Some code \<Rightarrow>
          Inr (buf @ [if m_error m then 33 else 1]
            @ (if m_type m \<in> {Request, Response} then encode_id (m_id m) else [])
            @ (if m_type m \<in> {Request, Notify, Push}
               then [ucast (drop_bit 8 code), ucast code] else [])
            @ m_data m))"
proof -
  have "ucast (signed_drop_bit 8 code AND 255) = (ucast (drop_bit 8 code) :: u8)" for code :: i32
  proof -
    have a: "w AND 255 = take_bit 8 w" for w :: i32
      by (simp add: take_bit_eq_mask mask_eq_exp_minus_1)
    show ?thesis
      unfolding a by (rule bit_word_eqI) (auto simp: bit_simps)
  qed
  moreover have "ucast (code AND 255) = (ucast code :: u8)" for code :: i32
  proof -
    have a: "code AND 255 = take_bit 8 code"
      by (simp add: take_bit_eq_mask mask_eq_exp_minus_1)
    show ?thesis
      unfolding a by (rule bit_word_eqI) (auto simp: bit_simps)
  qed
  ultimately show ?thesis
    by (auto simp: Message_SerializeInto_def um_at_conv message_flag_def has_id_def
        IsMessageTypeRoutable_def split: option.split)
qed


lemma deserialize_tail:
  assumes "bindR A (\<lambda>(i, off). bindR (B off) (\<lambda>r. case r of None \<Rightarrow> Inr None
     | Some (route, off') \<Rightarrow> bindR (D off') (\<lambda>d. case d of None \<Rightarrow> Inr None
         | Some bs \<Rightarrow> Inr (Some (f i route bs))))) = Inr (Some m)"
  shows "\<exists>i route bs. m = f i route bs"
  using assms by (auto simp: bindR_eq_Inr split: option.splits prod.splits)

lemma deserialize_type:
  assumes "Deserialize Z buf c = Inr (Some m)"
  shows "m_type m = MessageType_cast (drop_bit 1 (buf ! 0) AND 7)"
proof -
  have 1: "\<not> length buf < kMessageHeaderLength"
    using assms by (auto simp: Deserialize_def)
  then have 2: "\<not> IsMessageTypeInvalid (drop_bit 1 (buf ! 0) AND 7)"
    using assms by (auto simp: Deserialize_def)
  from deserialize_tail [OF assms [unfolded Deserialize_def Let_def if_not_P [OF 1] if_not_P [OF 2]]]
  show ?thesis by auto
qed

text \<open>
  The serialized form of any message decodes as a request, if it decodes at all: the flag byte
  never carries the type.
\<close>

theorem serialized_type_is_lost:
  assumes "Message_SerializeInto m [] d = Inr buf" and "Deserialize Z buf c = Inr (Some m')"
  shows "m_type m' = Request"
proof -
  obtain t where buf: "buf = (if m_error m then 33 else 1) # t"
    using assms(1) by (auto simp: Message_SerializeInto_def um_at_conv message_flag_def split: option.splits)
  have "drop_bit 1 (buf ! 0) AND 7 = 0"
    by (simp add: buf)
  with deserialize_type [OF assms(2)] show ?thesis
    by (simp add: MessageType_cast_def)
qed

text \<open>
  A push message with an uncompressed route, as the server sends it, is decoded with its data,
  but its route becomes the character with the code of the route's length, repeated as often as the
  code of the route's first character.
\<close>

theorem push_route_garbled:
  assumes "length route < 256" and "route \<noteq> []"
  shows "Deserialize Z (6 # of_nat (length route) # bytes_of_string route @ data) c =
     Inr (Some \<lparr>m_type = Push, m_id = 0,
                m_route = replicate (of_char (hd route)) (char_of (length route)),
                m_data = data, m_error = False\<rparr>)"
proof -
  obtain x xs where r: "route = x # xs" using assms(2) by (cases route) auto
  have u: "unat (of_nat (length route) :: u8) = length route"
    using assms(1) by (simp add: unat_of_nat_less)
  let ?buf = "6 # of_nat (length route) # bytes_of_string route @ data"
  have c: "?buf ! Suc (Suc 0) = of_char x"
    by (simp add: r bytes_of_string_def)
  have l: "Suc (Suc 0) < length ?buf" using assms(2) by (cases route) simp_all
  have route: "read_route ?buf c 6 (Suc 0) =
      Inr (Some (replicate (of_char x) (char_of (length route)), Suc (Suc (length route))))"
    using c u l by (simp add: read_route_def rd_def)
  show ?thesis
    using assms(2) route r
    by (simp add: Deserialize_def IsMessageTypeInvalid_def MessageType_cast_def has_id_def
        IsMessageTypeRoutable_def read_data_def)
qed

lemma deserialize_gzip_response:
  assumes "Decompress Z body 0 = Some (0, Some out, n)" and "body \<noteq> []" and "unat n \<le> length out"
  shows "Deserialize Z (20 # encode_id i @ body) c =
     Inr (Some \<lparr>m_type = Response, m_id = i, m_route = [], m_data = take (unat n) out,
                m_error = False\<rparr>)"
proof -
  have len: "\<not> length (20 # encode_id i @ body) < 2"
    using encode_id_not_Nil(2) [of i] by (simp del: encode_id_not_Nil)
  show ?thesis
    using assms len
    by (simp add: Deserialize_def IsMessageTypeInvalid_def MessageType_cast_def has_id_def
        IsMessageTypeRoutable_def decode_id_after_flag read_data_def inflated_bytes_def)
qed

text \<open>
  A compressed response is decoded to its id and the decompressed data.
\<close>

theorem gzip_response_decoded:
  assumes "inflates Z rest" and "\<forall>n. realloc_ok Z n"
    and "inflateInit2 Z 47 = (Z_OK, z)" and "rest (inflate_input Z z body) = plain"
    and "0 < length body" and "length body < 2 ^ 31" and "length plain < 2 ^ 64"
  shows "Deserialize Z (20 # encode_id i @ body) c =
     Inr (Some \<lparr>m_type = Response, m_id = i, m_route = [], m_data = plain, m_error = False\<rparr>)"
proof -
  have u: "unat (of_nat (length plain) :: u64) = length plain"
    using assms(7) by (intro unat_of_nat_less) simp
  from Decompress_good [OF assms(1-6)] assms(5) u show ?thesis
    by (simp add: deserialize_gzip_response)
qed

text \<open>
  Corrupt compressed data is not refused. When \<open>inflate\<close> reports an error in its first round
  and the stream is then closed without one, \<open>Decompress\<close> returns the success of the closing, and
  the message is delivered with empty data.
\<close>

theorem corrupt_gzip_response_accepted:
  assumes "inflateInit2 Z 47 = (Z_OK, z)" and "realloc_ok Z (2 * of_nat (length body))"
    and "inflate Z (inflate_input Z z body) Z_FINISH (of_nat (2 * length body)) = (ret, w, z')"
    and "ret \<notin> {Z_STREAM_END, Z_OK, Z_BUF_ERROR}" and "inflateEnd Z z' = Z_OK"
    and "0 < length body" and "length body < 2 ^ 31"
  shows "Deserialize Z (20 # encode_id i @ body) c =
     Inr (Some \<lparr>m_type = Response, m_id = i, m_route = [], m_data = [], m_error = False\<rparr>)"
proof -
  from Decompress_error [OF assms(1-4) assms(7)] assms(5,6) show ?thesis
    by (simp add: deserialize_gzip_response)
qed
section \<open>Witnesses\<close>

theorem request_roundtrip_witness:
  "\<exists>buf. Message_SerializeInto (NewRequest 300 ''a.b'' [1]) [] [(''a.b'', 7)] = Inr buf
     \<and> Deserialize tripling_zlib buf [(7, ''a.b'')] = Inr (Some (NewRequest 300 ''a.b'' [1]))"
  using request_roundtrip [of "[(''a.b'', 7)]" "''a.b''" 7 "[(7, ''a.b'')]" 300 "[1]" tripling_zlib]
  by (simp add: um_find_def)

theorem request_code_low_byte_witness:
  "\<exists>buf. Message_SerializeInto (NewRequest 1 ''a'' []) [] [(''a'', 257)] = Inr buf
     \<and> Deserialize tripling_zlib buf [(257, ''a''), (1, ''b'')] = Inr (Some (NewRequest 1 ''b'' []))"
  using request_code_low_byte [of "[(''a'', 257)]" "''a''" 257 1 "[]" tripling_zlib
      "[(257, ''a''), (1, ''b'')]"]
  by (simp add: um_find_def)


theorem serialized_type_is_lost_witness:
  "\<exists>buf m'. Message_SerializeInto
       \<lparr>m_type = Response, m_id = 3, m_route = ''a'', m_data = [0, 1], m_error = False\<rparr> []
       [(''a'', 1)] = Inr buf
     \<and> Deserialize tripling_zlib buf [(1, ''a'')] = Inr (Some m') \<and> m_type m' = Request"
proof -
  let ?m = "\<lparr>m_type = Response, m_id = 3, m_route = ''a'', m_data = [0, 1], m_error = False\<rparr>"
  have e: "encode_id 3 = [3]" by (simp add: encode_id.simps)
  have s: "Message_SerializeInto ?m [] [(''a'', 1)] = Inr (1 # encode_id 3 @ [0, ucast ((1 :: i32) AND 255)])"
    by (simp add: Message_SerializeInto_def um_at_def um_find_def message_flag_def has_id_def
        IsMessageTypeRoutable_def)
  obtain m' where d: "Deserialize tripling_zlib (1 # encode_id 3 @ [0, ucast ((1 :: i32) AND 255)])
      [(1, ''a'')] = Inr (Some m')"
    by (simp only: deserialize_request) (simp add: um_find_def)
  from serialized_type_is_lost [OF s d] s d show ?thesis by blast
qed

theorem push_route_garbled_witness:
  "Deserialize tripling_zlib (6 # of_nat (length ''hi'') # bytes_of_string ''hi'' @ [5]) [] =
   Inr (Some \<lparr>m_type = Push, m_id = 0,
              m_route = replicate (of_char (hd ''hi'')) (char_of (length ''hi'')),
              m_data = [5], m_error = False\<rparr>)"
  by (rule push_route_garbled) simp_all

theorem gzip_response_decoded_witness:
  "Deserialize tripling_zlib (20 # encode_id 9 @ [1, 2]) [] =
   Inr (Some \<lparr>m_type = Response, m_id = 9, m_route = [], m_data = [1, 1, 1, 2, 2, 2],
              m_error = False\<rparr>)"
  using gzip_response_decoded [OF inflates_tripling, of "[]" "[1, 2]" "[1, 1, 1, 2, 2, 2]" 9 "[]"]
  by (simp add: tripling_zlib_def)

text \<open>A stream on which \<open>inflate\<close> reports corrupt data (\<^verbatim>\<open>Z_DATA_ERROR\<close>).\<close>

definition corrupt_zlib :: "bytes zlib" where
  "corrupt_zlib = tripling_zlib\<lparr>inflate := (\<lambda>z _ _. (-3, [], z))\<rparr>"

theorem corrupt_gzip_response_accepted_witness:
  "Deserialize corrupt_zlib (20 # encode_id 9 @ [1, 2]) [] =
   Inr (Some \<lparr>m_type = Response, m_id = 9, m_route = [], m_data = [], m_error = False\<rparr>)"
  using corrupt_gzip_response_accepted [of corrupt_zlib "[]" "[1, 2]" "-3" "[]" "[1, 1, 1, 2, 2, 2]" 9 "[]"]
  by (simp add: corrupt_zlib_def tripling_zlib_def)

end
