(* ===== verification/Packet.thy ===== *)
theory Packet
  imports Message
begin

text \<open>
  \<^verbatim>\<open>include/pitaya/protocol/packet.h\<close> and \<^verbatim>\<open>src/protocol/packet.cpp\<close>: the packets of the
  wire protocol. A packet is a type byte, the length of the body in three bytes, high byte first,
  and the body. \<open>packet_length\<close> is the length as the reader computes it from the three bytes.
\<close>

section \<open>Packet types\<close>

abbreviation (input) kPacketHeaderSize :: nat where "kPacketHeaderSize \<equiv> 4"

datatype PacketType = Handshake | HandshakeAck | Heartbeat | Data | Kick

fun PacketType_value :: "PacketType \<Rightarrow> u8" where
  "PacketType_value Handshake = 1"
| "PacketType_value HandshakeAck = 2"
| "PacketType_value Heartbeat = 3"
| "PacketType_value Data = 4"
| "PacketType_value Kick = 5"

definition PacketType_cast :: "u8 \<Rightarrow> PacketType" where
  "PacketType_cast b =
     (if b = 1 then Handshake else if b = 2 then HandshakeAck else if b = 3 then Heartbeat
      else if b = 4 then Data else Kick)"

definition PacketTypeFromByte :: "u8 \<Rightarrow> PacketType option" where
  "PacketTypeFromByte packetType =
     (if packetType \<ge> PacketType_value Handshake \<and> packetType \<le> PacketType_value Kick
      then Some (PacketType_cast packetType) else None)"

fun PacketType_print :: "PacketType \<Rightarrow> string" where
  "PacketType_print Handshake = ''Handshake''"
| "PacketType_print HandshakeAck = ''HandshakeAck''"
| "PacketType_print Heartbeat = ''Heartbeat''"
| "PacketType_print Data = ''Data''"
| "PacketType_print Kick = ''Kick''"

section \<open>Packets\<close>

record Packet =
  p_type :: PacketType
  p_body :: bytes

text \<open>The two overloads of \<^verbatim>\<open>NewHandshake\<close> and the three of \<^verbatim>\<open>NewData\<close> have names of their own.\<close>

definition NewHandshake :: "string \<Rightarrow> Packet" where
  "NewHandshake json = \<lparr>p_type = Handshake, p_body = bytes_of_string json\<rparr>"

definition NewHandshake_range :: "bytes \<Rightarrow> Packet" where
  "NewHandshake_range bs = \<lparr>p_type = Handshake, p_body = bs\<rparr>"

definition NewHandshakeAck :: Packet where
  "NewHandshakeAck = \<lparr>p_type = HandshakeAck, p_body = []\<rparr>"

definition NewHeartbeat :: Packet where
  "NewHeartbeat = \<lparr>p_type = Heartbeat, p_body = []\<rparr>"

definition NewData :: "Message \<Rightarrow> (string, i32) umap \<Rightarrow> Packet result" where
  "NewData message routeDict =
     bindR (Message_SerializeInto message [] routeDict) (\<lambda>body.
       Inr \<lparr>p_type = Data, p_body = body\<rparr>)"

definition NewData_vector :: "bytes \<Rightarrow> Packet" where
  "NewData_vector data = \<lparr>p_type = Data, p_body = data\<rparr>"

definition NewData_range :: "bytes \<Rightarrow> Packet" where
  "NewData_range bs = \<lparr>p_type = Data, p_body = bs\<rparr>"

definition NewKick :: Packet where
  "NewKick = \<lparr>p_type = Kick, p_body = []\<rparr>"

definition NewRequestMessage :: "build \<Rightarrow> u64 \<Rightarrow> string + i32 \<Rightarrow> bytes \<Rightarrow> bytes result" where
  "NewRequestMessage b msgId codeOrRoute data =
     bindR (cassert b False ''invalid function specialization'') (\<lambda>_. Inr [])"

definition FirstByte :: "u32 \<Rightarrow> u8" where
  "FirstByte val = ucast (val AND 0xff)"

definition SecondByte :: "u32 \<Rightarrow> u8" where
  "SecondByte val = ucast (drop_bit 8 val AND 0xff)"

definition ThirdByte :: "u32 \<Rightarrow> u8" where
  "ThirdByte val = ucast (drop_bit 16 val AND 0xff)"

definition Packet_SerializeInto :: "Packet \<Rightarrow> bytes \<Rightarrow> bytes" where
  "Packet_SerializeInto p buf =
     buf @ [PacketType_value (p_type p),
            ThirdByte (of_nat (length (p_body p))),
            SecondByte (of_nat (length (p_body p))),
            FirstByte (of_nat (length (p_body p)))] @ p_body p"

text \<open>\<^verbatim>\<open>(b1 << 16) | (b2 << 8) | b3\<close> on bytes promoted to \<^verbatim>\<open>int\<close>.\<close>

definition packet_length :: "u8 \<Rightarrow> u8 \<Rightarrow> u8 \<Rightarrow> nat" where
  "packet_length b1 b2 b3 =
     unat (push_bit 16 (ucast b1) OR push_bit 8 (ucast b2) OR ucast b3 :: i32)"

section \<open>The header\<close>

lemma PacketTypeFromByte_value [simp]: "PacketTypeFromByte (PacketType_value t) = Some t"
  by (cases t) (simp_all add: PacketTypeFromByte_def PacketType_cast_def)

lemma PacketTypeFromByte_Some: "PacketTypeFromByte b = Some t \<longleftrightarrow> b = PacketType_value t"
proof
  assume a: "PacketTypeFromByte b = Some t"
  then have "1 \<le> unat b" and "unat b \<le> 5"
    by (auto simp: PacketTypeFromByte_def word_le_nat_alt split: if_splits)
  then have "unat b \<in> {1, 2, 3, 4, 5}" by auto
  then have "b = 1 \<or> b = 2 \<or> b = 3 \<or> b = 4 \<or> b = 5"
    by (auto simp: word_unat_eq_iff)
  with a show "b = PacketType_value t"
    by (auto simp: PacketTypeFromByte_def PacketType_cast_def)
qed simp

lemma byte_mask: "w AND 255 = take_bit 8 w" for w :: u32
  by (simp add: take_bit_eq_mask mask_eq_exp_minus_1)

lemma packet_length_bytes:
  "packet_length (ThirdByte w) (SecondByte w) (FirstByte w) = unat w mod 2 ^ 24"
proof -
  have "push_bit 16 (ucast (ThirdByte w)) OR push_bit 8 (ucast (SecondByte w)) OR ucast (FirstByte w)
      = take_bit 24 w"
    unfolding ThirdByte_def SecondByte_def FirstByte_def byte_mask
  proof (rule bit_word_eqI)
    fix n :: nat
    show "bit (push_bit 16 (ucast (ucast (take_bit 8 (drop_bit 16 w)) :: u8)) OR
        push_bit 8 (ucast (ucast (take_bit 8 (drop_bit 8 w)) :: u8)) OR
        ucast (ucast (take_bit 8 w) :: u8) :: i32) n = bit (take_bit 24 w) n"
      by (cases "16 \<le> n") (auto simp: bit_simps)
  qed
  then show ?thesis
    by (simp add: packet_length_def unsigned_take_bit_eq) (simp add: take_bit_eq_mod unat_mod)
qed

lemma packet_length_of_nat:
  "packet_length (ThirdByte (of_nat n)) (SecondByte (of_nat n)) (FirstByte (of_nat n)) = n mod 2 ^ 24"
proof -
  have "unat (of_nat n :: u32) mod 2 ^ 24 = (n mod 2 ^ 32) mod 2 ^ 24"
    by (simp add: unat_of_nat)
  also have "\<dots> = n mod 2 ^ 24"
    by (rule mod_mod_cancel) simp
  finally show ?thesis by (simp only: packet_length_bytes)
qed

lemma packet_length_less: "packet_length b1 b2 b3 < 2 ^ 24"
proof -
  let ?w = "push_bit 16 (ucast b1) OR push_bit 8 (ucast b2) OR ucast b3 :: i32"
  have w: "?w = take_bit 24 ?w"
    by (rule bit_word_eqI) (auto simp: bit_simps dest: bit_imp_le_length)
  have "unat (take_bit 24 ?w) < 2 ^ 24"
    by (simp only: unsigned_take_bit_eq take_bit_nat_less_exp)
  with w show ?thesis by (simp only: packet_length_def)
qed

section \<open>Frames of a byte sequence\<close>

text \<open>
  The reference for the reader of the packet stream: the complete packets at the front of a byte
  sequence and the bytes that remain. It follows the cases of
  \<^verbatim>\<open>TcpPacketStream::ParsePacketsFromReadBuffer\<close>: an unknown type byte throws; a heartbeat or
  a kick must have length 0 in a debug build, and only its header is consumed; a handshake ack from
  the server is a failed assertion in a debug build and otherwise an iteration without progress.
\<close>

definition frame_length :: "bytes \<Rightarrow> nat" where
  "frame_length bs = packet_length (bs ! 1) (bs ! 2) (bs ! 3)"

definition header_only :: "PacketType \<Rightarrow> bool" where
  "header_only t \<longleftrightarrow> t = Heartbeat \<or> t = Kick"

definition frame_packet :: "PacketType \<Rightarrow> bytes \<Rightarrow> Packet" where
  "frame_packet t body = \<lparr>p_type = t, p_body = (if header_only t then [] else body)\<rparr>"

definition frame_size :: "PacketType \<Rightarrow> nat \<Rightarrow> nat" where
  "frame_size t len = (if header_only t then 4 else 4 + len)"

datatype first_frame = NoFrame | BadFrame fault | FirstFrame Packet nat

definition first_frame :: "build \<Rightarrow> bytes \<Rightarrow> first_frame" where
  "first_frame b bs =
     (if length bs < 4 then NoFrame
      else (case PacketTypeFromByte (bs ! 0) of
        None \<Rightarrow> BadFrame (PitayaException ''Received an invalid packet type from the server.'')
      | Some t \<Rightarrow>
          (if length bs < 4 + frame_length bs then NoFrame
           else if t = HandshakeAck then
             BadFrame (if b = Debug then AssertFailed ''Unexpected packet type from server'' else Diverges)
           else if b = Debug \<and> header_only t \<and> frame_length bs \<noteq> 0 then
             BadFrame (AssertFailed ''length == 0'')
           else FirstFrame (frame_packet t (take (frame_length bs) (drop 4 bs)))
                           (frame_size t (frame_length bs)))))"

lemma first_frame_size:
  "first_frame b bs = FirstFrame p n \<Longrightarrow> 4 \<le> n \<and> n \<le> length bs"
  by (auto simp: first_frame_def frame_size_def split: if_splits option.splits)

function frames :: "build \<Rightarrow> bytes \<Rightarrow> (Packet list \<times> bytes) result" where
  "frames b bs =
     (case first_frame b bs of
        NoFrame \<Rightarrow> Inr ([], bs)
      | BadFrame e \<Rightarrow> Inl e
      | FirstFrame p n \<Rightarrow> bindR (frames b (drop n bs)) (\<lambda>(ps, r). Inr (p # ps, r)))"
  by pat_completeness auto
termination
proof (relation "measure (\<lambda>(b, bs). length bs)")
  fix b bs p n
  assume "first_frame b bs = FirstFrame p n"
  from first_frame_size [OF this] show "((b, drop n bs), b, bs) \<in> measure (\<lambda>(b, bs). length bs)"
    by auto
qed simp

declare frames.simps [simp del]

text \<open>What follows a complete frame does not change how it is read.\<close>

lemma first_frame_append:
  assumes "first_frame b bs \<noteq> NoFrame"
  shows "first_frame b (bs @ ys) = first_frame b bs"
proof -
  have l: "4 \<le> length bs"
    using assms by (auto simp: first_frame_def split: if_splits)
  then have h: "(bs @ ys) ! 0 = bs ! 0" "frame_length (bs @ ys) = frame_length bs"
    by (auto simp: nth_append frame_length_def)
  show ?thesis
    using assms l h
    by (auto simp: first_frame_def split: option.splits if_splits)
qed

lemma frames_append:
  "frames b xs = Inr (ps, r) \<Longrightarrow>
   frames b (xs @ ys) = bindR (frames b (r @ ys)) (\<lambda>(qs, r'). Inr (ps @ qs, r'))"
proof (induction b xs arbitrary: ps rule: frames.induct)
  case (1 b xs)
  show ?case
  proof (cases "first_frame b xs")
    case NoFrame
    with 1(2) have "ps = []" and "r = xs" by (simp_all add: frames.simps [of b xs])
    then show ?thesis by (cases "frames b (xs @ ys)") auto
  next
    case (BadFrame e)
    with 1(2) show ?thesis by (simp add: frames.simps [of b xs])
  next
    case (FirstFrame p n)
    with 1(2) obtain qs where q: "frames b (drop n xs) = Inr (qs, r)" and ps: "ps = p # qs"
      by (auto simp: frames.simps [of b xs] bindR_eq_Inr split: prod.splits)
    have "drop n (xs @ ys) = drop n xs @ ys"
      using first_frame_size [OF FirstFrame] by simp
    moreover have "first_frame b (xs @ ys) = FirstFrame p n"
      using first_frame_append [of b xs ys] FirstFrame by simp
    ultimately have "frames b (xs @ ys) = bindR (frames b (drop n xs @ ys)) (\<lambda>(ps, r). Inr (p # ps, r))"
      by (simp add: frames.simps [of b "xs @ ys"])
    also have "\<dots> = bindR (frames b (r @ ys)) (\<lambda>(qs, r'). Inr (ps @ qs, r'))"
      using 1(1) [OF FirstFrame q] ps by (cases "frames b (r @ ys)") auto
    finally show ?thesis .
  qed
qed

lemma frames_first_type:
  assumes "frames b bs = Inr (p # ps, r)"
  shows "PacketTypeFromByte (bs ! 0) = Some (p_type p)"
  using assms
  by (auto simp: frames.simps [of b bs] first_frame_def frame_packet_def bindR_eq_Inr
      split: first_frame.splits if_splits option.splits prod.splits)

lemma frames_Inr_Nil: "frames b bs = Inr ([], r) \<Longrightarrow> r = bs"
  by (auto simp: frames.simps [of b bs] bindR_eq_Inr split: first_frame.splits prod.splits)

lemma frames_prefix: "frames b (xs @ ys) = Inr z \<Longrightarrow> \<exists>ps r. frames b xs = Inr (ps, r)"
proof (induction b xs arbitrary: z rule: frames.induct)
  case (1 b xs)
  show ?case
  proof (cases "first_frame b xs")
    case NoFrame
    then show ?thesis by (simp add: frames.simps)
  next
    case (BadFrame e)
    with 1(2) first_frame_append [of b xs ys] show ?thesis
      by (simp add: frames.simps [of b "xs @ ys"])
  next
    case (FirstFrame p n)
    moreover have "drop n (xs @ ys) = drop n xs @ ys"
      using first_frame_size [OF FirstFrame] by simp
    ultimately obtain z' where "frames b (drop n xs @ ys) = Inr z'"
      using 1(2) first_frame_append [of b xs ys]
      by (auto simp: frames.simps [of b "xs @ ys"] bindR_eq_Inr)
    from 1(1) [OF FirstFrame this] FirstFrame show ?thesis
      by (auto simp: frames.simps [of b xs])
  qed
qed

interpretation frame_parser: prefix_closed_parser "frames b" for b
proof unfold_locales
  show "frames b [] = Inr ([], [])"
    by (simp add: frames.simps first_frame_def)
qed (auto dest: frames_append frames_prefix)

section \<open>Packets from the server\<close>

text \<open>The packets a server may send: handshake and data packets whose body fits the length field, and heartbeats and kicks without a body.\<close>

definition server_packet :: "Packet \<Rightarrow> bool" where
  "server_packet p \<longleftrightarrow>
     (p_type p \<in> {Handshake, Data} \<and> length (p_body p) < 2 ^ 24)
     \<or> (p_type p \<in> {Heartbeat, Kick} \<and> p_body p = [])"

abbreviation serialize :: "Packet \<Rightarrow> bytes" where
  "serialize p \<equiv> Packet_SerializeInto p []"

lemma first_frame_serialize:
  assumes "server_packet p"
  shows "first_frame b (serialize p @ r) = FirstFrame p (length (serialize p))"
proof -
  let ?bs = "serialize p @ r"
  have len: "frame_length ?bs = length (p_body p)"
    using assms
    by (auto simp: frame_length_def Packet_SerializeInto_def packet_length_of_nat server_packet_def)
  have t: "PacketTypeFromByte (?bs ! 0) = Some (p_type p)"
    by (simp add: Packet_SerializeInto_def)
  have body: "take (length (p_body p)) (drop 4 ?bs) = p_body p"
    by (simp add: Packet_SerializeInto_def)
  have l: "length (serialize p) = 4 + length (p_body p)"
    by (simp add: Packet_SerializeInto_def)
  have p: "frame_packet (p_type p) (take (length (p_body p)) (drop 4 ?bs)) = p"
    unfolding body using assms by (auto simp: frame_packet_def server_packet_def header_only_def)
  have a: "p_type p \<noteq> HandshakeAck" "header_only (p_type p) \<Longrightarrow> p_body p = []"
    using assms by (auto simp: server_packet_def header_only_def)
  have n: "frame_size (p_type p) (length (p_body p)) = length (serialize p)"
    using a(2) by (auto simp: l frame_size_def)
  have "\<not> length ?bs < 4 + length (p_body p)" "\<not> length ?bs < 4"
    by (simp_all add: l)
  then show ?thesis
    using a by (simp only: first_frame_def len t p n option.case if_False simp_thms) auto
qed

definition decode_frame :: "build \<Rightarrow> bytes \<Rightarrow> (Packet \<times> bytes) option" where
  "decode_frame b bs =
     (case first_frame b bs of FirstFrame p n \<Rightarrow> Some (p, drop n bs) | _ \<Rightarrow> None)"

interpretation packet_codec: prefix_codec serialize "decode_frame b" server_packet for b
  by unfold_locales (simp add: decode_frame_def first_frame_serialize)

lemma frames_serialized:
  "\<forall>p \<in> set ps. server_packet p \<Longrightarrow>
   frames b (concat (map serialize ps) @ r) = bindR (frames b r) (\<lambda>(qs, r'). Inr (ps @ qs, r'))"
proof (induction ps)
  case Nil
  then show ?case by (cases "frames b r") auto
next
  case (Cons p ps)
  then have "first_frame b (serialize p @ concat (map serialize ps) @ r) =
      FirstFrame p (length (serialize p))"
    by (simp add: first_frame_serialize)
  with Cons show ?case
    by (subst frames.simps) (cases "frames b r", auto)
qed

text \<open>
  A serialized packet is a type byte that the reader maps back to the type, three length bytes from
  which the reader computes the length of the body modulo \<open>2 ^ 24\<close>, and the body: bodies of 16 MB or
  more are framed wrongly, all others are framed right.
\<close>

theorem packet_header_read_back:
  "\<exists>t b1 b2 b3. Packet_SerializeInto p buf = buf @ [t, b1, b2, b3] @ p_body p
     \<and> PacketTypeFromByte t = Some (p_type p)
     \<and> packet_length b1 b2 b3 = length (p_body p) mod 2 ^ 24"
  by (intro exI conjI) (rule Packet_SerializeInto_def, rule PacketTypeFromByte_value, rule packet_length_of_nat)

end
