(* ===== verification/Errors.thy ===== *)
theory Errors
  imports Prelude
begin

text \<open>
  \<^verbatim>\<open>include/pitaya/connection/error.h\<close> and \<^verbatim>\<open>src/connection/error.cpp\<close>: the error
  enumeration, its error category and the conversion to \<^verbatim>\<open>boost::system::error_code\<close>.
  Categories of the Boost libraries are numbered; their messages are a parameter of \<open>ec_message\<close>.
\<close>

datatype ConnectionError =
    InvalidPacketType
  | TooManyPackets
  | WrongPacket
  | HeartbeatTimeout
  | InvalidHeartbeatJson
  | InvalidHandshakeCompression
  | InvalidMessage

fun ConnectionError_value :: "ConnectionError \<Rightarrow> int" where
  "ConnectionError_value InvalidPacketType = 1"
| "ConnectionError_value TooManyPackets = 2"
| "ConnectionError_value WrongPacket = 3"
| "ConnectionError_value HeartbeatTimeout = 4"
| "ConnectionError_value InvalidHeartbeatJson = 5"
| "ConnectionError_value InvalidHandshakeCompression = 6"
| "ConnectionError_value InvalidMessage = 7"

datatype category = PitayaConnectionCategory | BoostCategory nat

record error_code =
  ec_value :: int
  ec_category :: category

definition ErrorCategory_name :: string where
  "ErrorCategory_name = ''pitaya_connection''"

definition ErrorCategory_message :: "int \<Rightarrow> string" where
  "ErrorCategory_message ev =
     (if ev = ConnectionError_value InvalidPacketType then
        ''Received invalid packet type from server''
      else if ev = ConnectionError_value TooManyPackets then
        ''Received too many packets from the server''
      else if ev = ConnectionError_value WrongPacket then
        ''Received wrong packet from the server''
      else if ev = ConnectionError_value HeartbeatTimeout then
        ''Did not receive heartbeat from server''
      else if ev = ConnectionError_value InvalidHandshakeCompression then
        ''Invalid handshake response compression from server''
      else if ev = ConnectionError_value InvalidHeartbeatJson then
        ''Invalid heartbeat json value from server''
      else ''Unknown error'')"

definition GetErrorCategory :: category where
  "GetErrorCategory = PitayaConnectionCategory"

declare GetErrorCategory_def [simp]

definition make_error_code :: "ConnectionError \<Rightarrow> error_code" where
  "make_error_code e = \<lparr>ec_value = ConnectionError_value e, ec_category = GetErrorCategory\<rparr>"

text \<open>
  \<^verbatim>\<open>boost_errc::make_error_code(boost_errc::success)\<close>; an \<^verbatim>\<open>error_code\<close> is true in a
  condition when its value is not zero; its message comes from its category.
\<close>

definition ec_success :: error_code where
  "ec_success = \<lparr>ec_value = 0, ec_category = BoostCategory 0\<rparr>"

definition ec_failed :: "error_code \<Rightarrow> bool" where
  "ec_failed ec \<longleftrightarrow> ec_value ec \<noteq> 0"

definition ec_message :: "(nat \<Rightarrow> int \<Rightarrow> string) \<Rightarrow> error_code \<Rightarrow> string" where
  "ec_message boost_message ec =
     (case ec_category ec of
        PitayaConnectionCategory \<Rightarrow> ErrorCategory_message (ec_value ec)
      | BoostCategory n \<Rightarrow> boost_message n (ec_value ec))"

text \<open>
  \<^verbatim>\<open>include/pitaya/exception.h\<close>: the exception of the library is the fault \<open>PitayaException\<close>;
  \<^verbatim>\<open>what()\<close> is a C string, which ends at the first zero. The header also has an error category of its own,
  which no code uses.
\<close>

fun Exception_what :: "fault \<Rightarrow> string option" where
  "Exception_what (PitayaException what) = Some (takeWhile (\<lambda>c. c \<noteq> CHR 0x00) what)"
| "Exception_what _ = None"

definition pitaya_ErrorCategory_name :: string where
  "pitaya_ErrorCategory_name = ''pitaya''"

definition pitaya_ErrorCategory_message :: "int \<Rightarrow> string" where
  "pitaya_ErrorCategory_message ev = ''Returning error category message man''"

lemma ec_failed_success [simp]: "\<not> ec_failed ec_success"
  by (simp add: ec_failed_def ec_success_def)

lemma ec_failed_make_error_code [simp]: "ec_failed (make_error_code e)"
  by (cases e) (simp_all add: ec_failed_def make_error_code_def)

lemma ConnectionError_value_inj: "ConnectionError_value e = ConnectionError_value e' \<longleftrightarrow> e = e'"
  by (cases e; cases e') simp_all

lemma ec_message_make_error_code:
  "ec_message bm (make_error_code e) = ErrorCategory_message (ConnectionError_value e)"
  by (simp add: ec_message_def make_error_code_def)

text \<open>
  Every error of the library becomes a failing error code, different errors become different
  codes, the six errors the category knows have pairwise different messages, and the seventh,
  \<open>InvalidMessage\<close>, falls through to the default message.
\<close>

theorem error_codes_faithful:
  "ec_failed (make_error_code e)
   \<and> (make_error_code e = make_error_code e' \<longleftrightarrow> e = e')
   \<and> (ec_message bm (make_error_code e) = ''Unknown error'' \<longleftrightarrow> e = InvalidMessage)
   \<and> (ec_message bm (make_error_code e) = ec_message bm (make_error_code e') \<longleftrightarrow> e = e')"
proof (intro conjI)
  show "ec_failed (make_error_code e)" by simp
  show "make_error_code e = make_error_code e' \<longleftrightarrow> e = e'"
    by (simp add: make_error_code_def ConnectionError_value_inj)
  show "ec_message bm (make_error_code e) = ''Unknown error'' \<longleftrightarrow> e = InvalidMessage"
    by (cases e) (simp_all add: ec_message_make_error_code ErrorCategory_message_def)
  show "ec_message bm (make_error_code e) = ec_message bm (make_error_code e') \<longleftrightarrow> e = e'"
    by (cases e; cases e') (simp_all add: ec_message_make_error_code ErrorCategory_message_def)
qed

end
