(* ===== verification/Events.thy ===== *)
theory Events
  imports Prelude
begin

text \<open>
  \<^verbatim>\<open>include/pitaya/connection/event.h\<close> and \<^verbatim>\<open>include/pitaya/request.h\<close>: the events a
  connection reports, the list of listeners, and the statuses of a request. A listener and a request
  handler are callbacks of the application; the model names them (\<open>'l\<close>, \<open>'cb\<close>) and records the
  calls made to them, in order.
\<close>

datatype Event = EvConnected | EvConnectionFailed | EvConnectionError | EvKicked

fun Event_print :: "Event \<Rightarrow> string" where
  "Event_print EvConnected = ''Connected''"
| "Event_print EvConnectionFailed = ''Connection Failed''"
| "Event_print EvConnectionError = ''Connection Error''"
| "Event_print EvKicked = ''Kicked''"

record 'l EventListeners =
  el_mutex :: bool
  el_listeners :: "'l list"

definition EventListeners_Add :: "'l \<Rightarrow> 'l EventListeners \<Rightarrow> 'l EventListeners" where
  "EventListeners_Add l e = e\<lparr>el_listeners := el_listeners e @ [l]\<rparr>"

text \<open>The calls \<open>Broadcast\<close> makes: every listener, in the order of registration.\<close>

definition EventListeners_Broadcast ::
  "'l EventListeners \<Rightarrow> Event \<Rightarrow> string \<Rightarrow> ('l \<times> Event \<times> string) list"
where
  "EventListeners_Broadcast e ev msg = map (\<lambda>l. (l, ev, msg)) (el_listeners e)"

datatype RequestStatus = Ok | ServerError | Timeout | Reset | InternalError | NotConnectedError

fun RequestStatus_print :: "RequestStatus \<Rightarrow> string" where
  "RequestStatus_print Ok = ''Ok''"
| "RequestStatus_print ServerError = ''ServerError''"
| "RequestStatus_print Timeout = ''Timeout''"
| "RequestStatus_print Reset = ''Reset''"
| "RequestStatus_print InternalError = ''InternalError''"
| "RequestStatus_print NotConnectedError = ''NotConnectedError''"

end
