(* ===== verification/Io_Context.thy ===== *)
theory Io_Context
  imports Packet Errors Events
begin

text \<open>
  The asynchronous operations the library starts on its \<^verbatim>\<open>boost::asio::io_context\<close>. Boost.Asio
  itself is not part of the model: an operation is recorded when the code starts it, with the
  closure that is to run at its completion, and the environment decides when it completes and how.
  The closures of the sources (the lambdas and \<^verbatim>\<open>std::bind\<close> objects) are data types: one
  constructor per closure, with what it captures.
\<close>

text \<open>The handlers given to \<^verbatim>\<open>PacketStream::SendPacket\<close> (\<^verbatim>\<open>connection.cpp\<close>).\<close>

datatype 'cb send_handler =
    RequestSent int Message 'cb
  | HandshakeSent
  | HandshakeAckSent int string "(string, i32) umap"
  | HeartbeatSent

text \<open>The handlers given to \<^verbatim>\<open>PacketStream::ReceivePackets\<close>.\<close>

datatype receive_handler = HandshakeResponseReceived | PacketsReceived

datatype timer = HeartbeatTimer | HeartbeatTimeoutTimer | RequestTimer u64

text \<open>
  A wait on a timer carries whether the code has set the expiry of that timer again, or destroyed
  the timer, since the wait was started. Asio documents that such a wait is cancelled; the
  hypotheses of theorems that rely on it say so explicitly.
\<close>

datatype 'cb op =
    PostedRequest string bytes int 'cb
  | PostedSendNext "'cb send_handler"
  | PendingConnect string string
  | PendingSend u32 bytes "'cb send_handler"
  | PendingReceive nat nat receive_handler
  | PendingWait timer bool

fun supersede_op :: "timer \<Rightarrow> 'cb op \<Rightarrow> 'cb op" where
  "supersede_op t (PendingWait t' s) = PendingWait t' (s \<or> t = t')"
| "supersede_op t p = p"

definition supersede :: "timer \<Rightarrow> 'cb op list \<Rightarrow> 'cb op list" where
  "supersede t ops = map (supersede_op t) ops"

fun send_next_handler :: "'cb op \<Rightarrow> 'cb send_handler option" where
  "send_next_handler (PostedSendNext h) = Some h"
| "send_next_handler _ = None"

fun send_next_handlers :: "'cb op list \<Rightarrow> 'cb send_handler list" where
  "send_next_handlers [] = []"
| "send_next_handlers (p # ops) =
     (case send_next_handler p of None \<Rightarrow> send_next_handlers ops | Some h \<Rightarrow> h # send_next_handlers ops)"

lemma supersede_simps [simp]:
  "supersede t [] = []"
  "supersede t (p # ops) = supersede_op t p # supersede t ops"
  "supersede t (ops @ ops') = supersede t ops @ supersede t ops'"
  "length (supersede t ops) = length ops"
  by (simp_all add: supersede_def)

lemma send_next_handler_supersede [simp]: "send_next_handler (supersede_op t p) = send_next_handler p"
  by (cases p) auto

lemma send_next_handlers_append [simp]:
  "send_next_handlers (ops @ ops') = send_next_handlers ops @ send_next_handlers ops'"
  by (induction ops) (simp_all split: option.split)

lemma send_next_handlers_supersede [simp]:
  "send_next_handlers (supersede t ops) = send_next_handlers ops"
  by (induction ops) (simp_all split: option.split)

end
