(* ===== verification/Packet_Stream.thy ===== *)
theory Packet_Stream
  imports Io_Context
begin

text \<open>
  \<^verbatim>\<open>src/connection/tcp_packet_stream.cpp\<close>: the packet stream over a TCP socket. Sending is a
  bounded queue with one posted task per queued packet; receiving is a fixed read buffer that is
  filled by the socket, cut into packets and rotated. An operation returns the new stream and the
  asynchronous operations it started.
\<close>

section \<open>State\<close>

record tcp_packet_stream =
  packetSendQueue :: "Packet list"
  writeBuffers :: "(u32, bytes) umap"
  writeId :: u32
  readBufferMaxSize :: nat
  readBufferHead :: nat
  readBuffer :: bytes

definition new_TcpPacketStream :: "nat \<Rightarrow> tcp_packet_stream" where
  "new_TcpPacketStream maxSize =
     \<lparr>packetSendQueue = [], writeBuffers = [], writeId = 0, readBufferMaxSize = maxSize,
      readBufferHead = 0, readBuffer = replicate maxSize 0\<rparr>"

abbreviation (input) kMaxQueuedPackets :: nat where "kMaxQueuedPackets \<equiv> 50"

section \<open>Connecting\<close>

text \<open>
  \<open>resolve\<close> is the resolver of Asio: an error text (the \<^verbatim>\<open>system_error\<close> it throws) or success.
  Disconnecting shuts the socket down and closes it; nothing else of the stream changes.
\<close>

definition TcpSocket_Connect :: "string \<Rightarrow> string \<Rightarrow> 'cb op list" where
  "TcpSocket_Connect host port = [PendingConnect host port]"

declare TcpSocket_Connect_def [simp]

definition TcpPacketStream_Connect ::
  "(string \<Rightarrow> string \<Rightarrow> string + unit) \<Rightarrow> string \<Rightarrow> string \<Rightarrow> 'cb op list result"
where
  "TcpPacketStream_Connect resolve host port =
     (case resolve host port of
        Inl what \<Rightarrow> Inl (PitayaException (''Error resolving host '' @ host @ '': '' @ what))
      | Inr _ \<Rightarrow> Inr (TcpSocket_Connect host port))"

datatype socket_call = SocketShutdown | SocketClose

definition TcpPacketStream_Disconnect :: "socket_call list" where
  "TcpPacketStream_Disconnect = [SocketShutdown, SocketClose]"

section \<open>Sending\<close>

definition SendPacket ::
  "Packet \<Rightarrow> 'cb send_handler \<Rightarrow> tcp_packet_stream \<Rightarrow> tcp_packet_stream \<times> 'cb op list"
where
  "SendPacket packet handler s =
     (if length (packetSendQueue s) < kMaxQueuedPackets
      then (s\<lparr>packetSendQueue := packetSendQueue s @ [packet]\<rparr>, [PostedSendNext handler])
      else (s, []))"

definition SendNextPacket ::
  "build \<Rightarrow> 'cb send_handler \<Rightarrow> tcp_packet_stream \<Rightarrow> (tcp_packet_stream \<times> 'cb op list) result"
where
  "SendNextPacket b handler s =
     bindR (cassert b (packetSendQueue s \<noteq> []) ''!_packetSendQueue.empty()'') (\<lambda>_.
     (case packetSendQueue s of
        [] \<Rightarrow> Inl (UndefinedBehaviour ''front of an empty deque'')
      | pkt # queue \<Rightarrow>
          (let bid = writeId s;
               nextId = writeId s + 1;
               buf = Packet_SerializeInto pkt []
           in bindR (cassert b (um_find (writeBuffers s) nextId = None) ''_writeBuffers.find(_writeId)'') (\<lambda>_.
              Inr (s\<lparr>packetSendQueue := queue, writeId := nextId,
                     writeBuffers := um_set bid buf (writeBuffers s)\<rparr>,
                   [PendingSend bid buf handler])))))"

text \<open>
  The completion of a send: the handler runs with the error or with success, and after a success
  the buffer is released. \<open>h\<close> is the handler's effect on the state that holds the stream
  (\<open>upd\<close> changes the stream in it). The number of bytes written is not looked at.
\<close>

definition OnSendComplete ::
  "((tcp_packet_stream \<Rightarrow> tcp_packet_stream) \<Rightarrow> 's \<Rightarrow> 's) \<Rightarrow> (error_code \<Rightarrow> 's \<Rightarrow> 's result) \<Rightarrow>
   u32 \<Rightarrow> error_code \<Rightarrow> nat \<Rightarrow> 's \<Rightarrow> 's result"
where
  "OnSendComplete upd h bid ec nwritten st =
     (if ec_failed ec then h ec st
      else bindR (h ec_success st) (\<lambda>st'.
             Inr (upd (\<lambda>s. s\<lparr>writeBuffers := um_erase bid (writeBuffers s)\<rparr>) st')))"

section \<open>Receiving\<close>

text \<open>Subtraction of \<^verbatim>\<open>size_t\<close> values.\<close>

definition size_t_minus :: "nat \<Rightarrow> nat \<Rightarrow> nat" where
  "size_t_minus m n = nat ((int m - int n) mod 2 ^ 64)"

definition ReadToBuffer ::
  "receive_handler \<Rightarrow> tcp_packet_stream \<Rightarrow> 'cb op list result"
where
  "ReadToBuffer handler s =
     (if readBuffer s = [] then Inl (UndefinedBehaviour ''vector index'')
      else Inr [PendingReceive (readBufferHead s)
                  (size_t_minus (length (readBuffer s)) (readBufferHead s)) handler])"

definition ReceivePackets ::
  "receive_handler \<Rightarrow> tcp_packet_stream \<Rightarrow> 'cb op list result"
where
  "ReceivePackets handler s = ReadToBuffer handler s"

text \<open>
  One round of the loop of \<^verbatim>\<open>ParsePacketsFromReadBuffer\<close>: return, push a packet and go on at a
  new offset, or go round again with nothing changed (the \<^verbatim>\<open>default\<close> branch in a release build).
\<close>

datatype round_result = ParseDone | ParsePush nat Packet | ParseAgain

definition parse_round :: "build \<Rightarrow> bytes \<Rightarrow> nat \<Rightarrow> nat \<Rightarrow> round_result result" where
  "parse_round b buf bufferSize packetStartOffset =
     (let sizeLeft = bufferSize - packetStartOffset in
      if sizeLeft < kPacketHeaderSize then Inr ParseDone
      else
        bindR (cassert b (packetStartOffset < length buf) ''packetStartOffset < _readBuffer.size()'') (\<lambda>_.
        bindR (rd buf packetStartOffset) (\<lambda>tb.
        (case PacketTypeFromByte tb of
           None \<Rightarrow> Inl (PitayaException ''Received an invalid packet type from the server.'')
         | Some t \<Rightarrow>
             bindR (rd buf (packetStartOffset + 1)) (\<lambda>b1.
             bindR (rd buf (packetStartOffset + 2)) (\<lambda>b2.
             bindR (rd buf (packetStartOffset + 3)) (\<lambda>b3.
             (let len = packet_length b1 b2 b3 in
              if sizeLeft < kPacketHeaderSize + len then Inr ParseDone
              else (case t of
                 Handshake \<Rightarrow>
                   bindR (rd_range buf (packetStartOffset + kPacketHeaderSize) len) (\<lambda>body.
                   Inr (ParsePush (packetStartOffset + (kPacketHeaderSize + len)) (NewHandshake_range body)))
               | Heartbeat \<Rightarrow>
                   bindR (cassert b (len = 0) ''length == 0'') (\<lambda>_.
                   Inr (ParsePush (packetStartOffset + kPacketHeaderSize) NewHeartbeat))
               | Data \<Rightarrow>
                   bindR (rd_range buf (packetStartOffset + kPacketHeaderSize) len) (\<lambda>body.
                   Inr (ParsePush (packetStartOffset + (kPacketHeaderSize + len)) (NewData_range body)))
               | Kick \<Rightarrow>
                   bindR (cassert b (len = 0) ''length == 0'') (\<lambda>_.
                   Inr (ParsePush (packetStartOffset + kPacketHeaderSize) NewKick))
               | HandshakeAck \<Rightarrow>
                   bindR (cassert b False ''Unexpected packet type from server'') (\<lambda>_.
                   Inr ParseAgain))))))))))"

text \<open>The loop, with fuel; \<open>None\<close> is out of fuel. It ends with the offset and the packets.\<close>

fun parse_loop ::
  "nat \<Rightarrow> build \<Rightarrow> bytes \<Rightarrow> nat \<Rightarrow> nat \<Rightarrow> Packet list \<Rightarrow> (nat \<times> Packet list) result option"
where
  "parse_loop 0 b buf bufferSize off packets = None"
| "parse_loop (Suc fuel) b buf bufferSize off packets =
     (case parse_round b buf bufferSize off of
        Inl e \<Rightarrow> Some (Inl e)
      | Inr ParseDone \<Rightarrow> Some (Inr (off, packets))
      | Inr (ParsePush off' p) \<Rightarrow> parse_loop fuel b buf bufferSize off' (packets @ [p])
      | Inr ParseAgain \<Rightarrow> parse_loop fuel b buf bufferSize off packets)"

definition std_rotate :: "nat \<Rightarrow> bytes \<Rightarrow> bytes" where
  "std_rotate middle v = drop middle v @ take middle v"

definition ParsePacketsFromReadBuffer ::
  "build \<Rightarrow> tcp_packet_stream \<Rightarrow> (Packet list \<times> tcp_packet_stream) result"
where
  "ParsePacketsFromReadBuffer b s =
     (case parse_loop (Suc (readBufferHead s)) b (readBuffer s) (readBufferHead s) 0 [] of
        None \<Rightarrow> Inl Diverges
      | Some (Inl e) \<Rightarrow> Inl e
      | Some (Inr (off, packets)) \<Rightarrow>
          Inr (packets, s\<lparr>readBuffer := std_rotate off (readBuffer s),
                          readBufferHead := readBufferHead s - off\<rparr>))"

text \<open>
  The completion of a receive that was started at offset \<open>start\<close>: the socket has put the bytes
  \<open>chunk\<close> into the buffer there. The result is the stream, the call of the handler (if it is
  called) and the operations started.
\<close>

definition OnReceiveComplete ::
  "build \<Rightarrow> receive_handler \<Rightarrow> nat \<Rightarrow> error_code \<Rightarrow> bytes \<Rightarrow> tcp_packet_stream \<Rightarrow>
   (tcp_packet_stream \<times> (error_code \<times> Packet list) option \<times> 'cb op list) result"
where
  "OnReceiveComplete b handler start ec chunk s =
     (if ec_failed ec then Inr (s, Some (ec, []), [])
      else
        bindR (cassert b (length chunk > 0) ''bytesRead > 0'') (\<lambda>_.
        (let s1 = s\<lparr>readBuffer := overwrite start chunk (readBuffer s),
                     readBufferHead := readBufferHead s + length chunk\<rparr> in
         bindR (cassert b (readBufferHead s1 \<le> length (readBuffer s1)) ''_readBufferHead <= _readBuffer.size()'') (\<lambda>_.
         (case ParsePacketsFromReadBuffer b s1 of
            Inl (PitayaException _) \<Rightarrow> Inr (s1, Some (make_error_code InvalidPacketType, []), [])
          | Inl e \<Rightarrow> Inl e
          | Inr (packets, s2) \<Rightarrow>
              (if packets = []
               then bindR (ReadToBuffer handler s2) (\<lambda>ops. Inr (s2, None, ops))
               else Inr (s2, Some (ec_success, packets), [])))))))"

section \<open>The reader cuts the buffer as the reference does\<close>

definition stream_wf :: "tcp_packet_stream \<Rightarrow> bool" where
  "stream_wf s \<longleftrightarrow>
     length (readBuffer s) = readBufferMaxSize s \<and> 0 < readBufferMaxSize s
     \<and> readBufferMaxSize s < 2 ^ 64 \<and> readBufferHead s \<le> readBufferMaxSize s"

text \<open>The bytes received and not yet turned into packets.\<close>

definition pending_bytes :: "tcp_packet_stream \<Rightarrow> bytes" where
  "pending_bytes s = take (readBufferHead s) (readBuffer s)"

text \<open>A stream with given unread bytes, for examples.\<close>

definition sample_stream :: "nat \<Rightarrow> bytes \<Rightarrow> tcp_packet_stream" where
  "sample_stream n bs = (new_TcpPacketStream n)
     \<lparr>readBuffer := bs @ replicate (n - length bs) 0, readBufferHead := length bs\<rparr>"

lemma stream_wf_sample [simp]:
  "stream_wf (sample_stream n bs) \<longleftrightarrow> length bs \<le> n \<and> 0 < n \<and> n < 2 ^ 64"
  by (auto simp: stream_wf_def sample_stream_def new_TcpPacketStream_def)

lemma pending_bytes_sample [simp]: "pending_bytes (sample_stream n bs) = bs"
  by (simp add: pending_bytes_def sample_stream_def new_TcpPacketStream_def)

lemma readBufferHead_sample [simp]: "readBufferHead (sample_stream n bs) = length bs"
  by (simp add: sample_stream_def)

lemma parse_round_first_frame:
  assumes "n \<le> length buf" and "off \<le> n"
  shows "parse_round b buf n off =
     (case first_frame b (drop off (take n buf)) of
        NoFrame \<Rightarrow> Inr ParseDone
      | BadFrame Diverges \<Rightarrow> Inr ParseAgain
      | BadFrame e \<Rightarrow> Inl e
      | FirstFrame p k \<Rightarrow> Inr (ParsePush (off + k) p))"
proof (cases "n - off < 4")
  case True
  then show ?thesis using assms by (simp add: parse_round_def first_frame_def)
next
  case False
  let ?xs = "drop off (take n buf)"
  let ?len = "packet_length (buf ! (off + 1)) (buf ! (off + 2)) (buf ! (off + 3))"
  have nth: "?xs ! i = buf ! (off + i)" if "i < 4" for i
    using assms False that by simp
  have len: "length ?xs = n - off" using assms by simp
  have fl: "frame_length ?xs = ?len"
    by (simp only: frame_length_def nth)
  have in_range: "off < length buf" "off + 1 < length buf" "off + 2 < length buf" "off + 3 < length buf"
    using assms False by simp_all
  have body: "take ?len (drop 4 ?xs) = take ?len (drop (off + 4) buf)" "off + 4 + ?len \<le> length buf"
    if "\<not> n - off < 4 + ?len"
    using assms that by (simp_all add: drop_take add.commute min_absorb1)
  have start: "?xs ! 0 = buf ! off" using nth [of 0] by simp
  have round: "parse_round b buf n off =
      (case PacketTypeFromByte (buf ! off) of
         None \<Rightarrow> Inl (PitayaException ''Received an invalid packet type from the server.'')
       | Some t \<Rightarrow>
           if n - off < 4 + ?len then Inr ParseDone
           else if t = HandshakeAck
           then bindR (cassert b False ''Unexpected packet type from server'') (\<lambda>_. Inr ParseAgain)
           else if header_only t
           then bindR (cassert b (?len = 0) ''length == 0'') (\<lambda>_. Inr (ParsePush (off + 4) (frame_packet t [])))
           else Inr (ParsePush (off + (4 + ?len)) (frame_packet t (take ?len (drop (off + 4) buf)))))"
    using False body(2) in_range
    by (simp add: parse_round_def Let_def rd_def rd_range_def header_only_def frame_packet_def
        NewHandshake_range_def NewHeartbeat_def NewData_range_def NewKick_def
        split: option.split PacketType.split)
  have frame: "first_frame b ?xs =
      (case PacketTypeFromByte (buf ! off) of
         None \<Rightarrow> BadFrame (PitayaException ''Received an invalid packet type from the server.'')
       | Some t \<Rightarrow>
           if n - off < 4 + ?len then NoFrame
           else if t = HandshakeAck then
             BadFrame (if b = Debug then AssertFailed ''Unexpected packet type from server'' else Diverges)
           else if b = Debug \<and> header_only t \<and> ?len \<noteq> 0 then BadFrame (AssertFailed ''length == 0'')
           else FirstFrame (frame_packet t (take ?len (drop (off + 4) buf))) (frame_size t ?len))"
    using False body(1) unfolding first_frame_def len fl start
    by (simp split: option.split)
  show ?thesis
    unfolding round frame
    by (cases "PacketTypeFromByte (buf ! off)"; cases b)
      (simp_all add: frame_size_def frame_packet_def)
qed

lemma parse_again_forever:
  "parse_round b buf n off = Inr ParseAgain \<Longrightarrow> parse_loop fuel b buf n off packets = None"
  by (induction fuel) simp_all

lemma parse_loop_frames:
  assumes "n \<le> length buf"
  shows "off \<le> n \<Longrightarrow> n - off < fuel \<Longrightarrow>
    parse_loop fuel b buf n off packets =
      (case frames b (drop off (take n buf)) of
         Inl Diverges \<Rightarrow> None
       | Inl e \<Rightarrow> Some (Inl e)
       | Inr (ps, r) \<Rightarrow> Some (Inr (n - length r, packets @ ps)))"
proof (induction fuel arbitrary: off packets)
  case 0
  then show ?case by simp
next
  case (Suc fuel)
  let ?xs = "drop off (take n buf)"
  note round = parse_round_first_frame [OF assms Suc.prems(1), of b]
  show ?case
  proof (cases "first_frame b ?xs")
    case NoFrame
    with assms Suc.prems(1) show ?thesis by (simp add: round frames.simps [of b ?xs])
  next
    case (BadFrame e)
    then show ?thesis
      using parse_again_forever [of b buf n off fuel packets]
      by (cases e) (simp_all add: round frames.simps [of b ?xs])
  next
    case (FirstFrame p k)
    from first_frame_size [OF this] assms Suc.prems have k: "4 \<le> k" "off + k \<le> n" by auto
    have "parse_loop (Suc fuel) b buf n off packets = parse_loop fuel b buf n (off + k) (packets @ [p])"
      using FirstFrame by (simp add: round)
    also have "\<dots> = (case frames b (drop (off + k) (take n buf)) of
         Inl Diverges \<Rightarrow> None
       | Inl e \<Rightarrow> Some (Inl e)
       | Inr (ps, r) \<Rightarrow> Some (Inr (n - length r, (packets @ [p]) @ ps)))"
      using k Suc.prems by (intro Suc.IH) auto
    also have "\<dots> = (case frames b ?xs of
         Inl Diverges \<Rightarrow> None
       | Inl e \<Rightarrow> Some (Inl e)
       | Inr (ps, r) \<Rightarrow> Some (Inr (n - length r, packets @ ps)))"
      using FirstFrame
      by (simp add: frames.simps [of b ?xs] add.commute bindR_def split: sum.splits fault.splits)
    finally show ?thesis .
  qed
qed

lemma frames_rest: "frames b xs = Inr (ps, r) \<Longrightarrow> \<exists>k \<le> length xs. r = drop k xs"
proof (induction b xs arbitrary: ps rule: frames.induct)
  case (1 b xs)
  show ?case
  proof (cases "first_frame b xs")
    case (FirstFrame p n)
    with 1(2) obtain qs where "frames b (drop n xs) = Inr (qs, r)"
      by (auto simp: frames.simps [of b xs] bindR_eq_Inr split: prod.splits)
    from 1(1) [OF FirstFrame this] obtain k where "k \<le> length (drop n xs)" "r = drop k (drop n xs)"
      by blast
    then show ?thesis using first_frame_size [OF FirstFrame] by (intro exI [of _ "k + n"]) auto
  qed (use 1(2) in \<open>auto simp: frames.simps [of b xs]\<close>)
qed

lemma length_pending_bytes: "stream_wf s \<Longrightarrow> length (pending_bytes s) = readBufferHead s"
  by (simp add: stream_wf_def pending_bytes_def)

lemma rotated_pending:
  assumes "stream_wf s" and "r = drop k (pending_bytes s)" and "k \<le> readBufferHead s"
  defines "s' \<equiv> s\<lparr>readBuffer := std_rotate k (readBuffer s), readBufferHead := readBufferHead s - k\<rparr>"
  shows "pending_bytes s' = r" and "stream_wf s'"
proof -
  from assms have k: "k \<le> length (readBuffer s)" by (simp add: stream_wf_def)
  show "stream_wf s'"
    using assms k by (auto simp: stream_wf_def std_rotate_def)
  show "pending_bytes s' = r"
    using assms k by (simp add: pending_bytes_def std_rotate_def drop_take stream_wf_def)
qed

lemma ParsePackets_cases:
  assumes "stream_wf s"
  shows "ParsePacketsFromReadBuffer b s =
     (case frames b (pending_bytes s) of
        Inl e \<Rightarrow> Inl e
      | Inr (ps, r) \<Rightarrow>
          Inr (ps, s\<lparr>readBuffer := std_rotate (readBufferHead s - length r) (readBuffer s),
                     readBufferHead := length r\<rparr>))"
proof -
  have "readBufferHead s \<le> length (readBuffer s)" using assms by (simp add: stream_wf_def)
  from parse_loop_frames [OF this le0, of "Suc (readBufferHead s)" b "[]"]
  have loop: "parse_loop (Suc (readBufferHead s)) b (readBuffer s) (readBufferHead s) 0 [] =
      (case frames b (pending_bytes s) of
         Inl Diverges \<Rightarrow> None
       | Inl e \<Rightarrow> Some (Inl e)
       | Inr (ps, r) \<Rightarrow> Some (Inr (readBufferHead s - length r, ps)))"
    by (simp only: minus_nat.diff_0 lessI append_Nil drop_0 pending_bytes_def simp_thms
        True_implies_equals)
  show ?thesis
  proof (cases "frames b (pending_bytes s)")
    case (Inl e)
    then show ?thesis
      by (cases e) (simp_all add: ParsePacketsFromReadBuffer_def loop del: parse_loop.simps)
  next
    case (Inr x)
    then obtain ps r where x: "frames b (pending_bytes s) = Inr (ps, r)" by (cases x) auto
    then have "length r \<le> readBufferHead s"
      using frames_rest [OF x] length_pending_bytes [OF assms] by auto
    with x show ?thesis
      by (simp add: ParsePacketsFromReadBuffer_def loop del: parse_loop.simps)
  qed
qed

lemma ParsePackets_Inr:
  assumes "stream_wf s" and "frames b (pending_bytes s) = Inr (ps, r)"
  shows "\<exists>s'. ParsePacketsFromReadBuffer b s = Inr (ps, s') \<and> pending_bytes s' = r \<and> stream_wf s'
     \<and> s' = s\<lparr>readBuffer := readBuffer s', readBufferHead := readBufferHead s'\<rparr>"
proof -
  obtain k where k: "k \<le> length (pending_bytes s)" "r = drop k (pending_bytes s)"
    using frames_rest [OF assms(2)] by blast
  then have e: "readBufferHead s - length r = k" "length r = readBufferHead s - k"
    using length_pending_bytes [OF assms(1)] by auto
  show ?thesis
    using rotated_pending [OF assms(1) k(2)] k(1) length_pending_bytes [OF assms(1)]
    by (simp add: ParsePackets_cases [OF assms(1)] assms(2) e)
qed

lemma ParsePackets_wf:
  assumes "stream_wf s" and "ParsePacketsFromReadBuffer b s = Inr (ps, s')"
  shows "stream_wf s' \<and> readBufferMaxSize s' = readBufferMaxSize s"
proof -
  obtain r where r: "frames b (pending_bytes s) = Inr (ps, r)"
    and max: "readBufferMaxSize s' = readBufferMaxSize s"
    using assms(2) by (auto simp: ParsePackets_cases [OF assms(1)] split: sum.splits)
  from ParsePackets_Inr [OF assms(1) r] assms(2) max show ?thesis by auto
qed

text \<open>
  C12: the reader implements the reference. On a well-formed stream, cutting the read buffer fails
  exactly as the reference fails on the unread bytes; otherwise it returns the reference's packets,
  the unread bytes of the new stream are the reference's rest, the stream stays well formed, and
  nothing but the read buffer and its head changes.
\<close>

theorem ParsePackets_refines_frames:
  assumes "stream_wf s"
  shows "case ParsePacketsFromReadBuffer b s of
           Inl e \<Rightarrow> frames b (pending_bytes s) = Inl e
         | Inr (ps, s') \<Rightarrow>
             frames b (pending_bytes s) = Inr (ps, pending_bytes s') \<and> stream_wf s'
             \<and> s' = s\<lparr>readBuffer := readBuffer s', readBufferHead := readBufferHead s'\<rparr>"
proof (cases "frames b (pending_bytes s)")
  case (Inl e)
  then show ?thesis by (simp add: ParsePackets_cases [OF assms])
next
  case (Inr x)
  then obtain ps r where "frames b (pending_bytes s) = Inr (ps, r)" by (cases x) auto
  from ParsePackets_Inr [OF assms this] this show ?thesis by fastforce
qed

theorem ParsePackets_refines_frames_witness:
  "stream_wf (sample_stream 9 [3, 0, 0, 0, 4, 0])
   \<and> ParsePacketsFromReadBuffer Debug (sample_stream 9 [3, 0, 0, 0, 4, 0]) =
       Inr ([NewHeartbeat], (sample_stream 9 [])\<lparr>readBuffer := [4, 0, 0, 0, 0, 3, 0, 0, 0], readBufferHead := 2\<rparr>)
   \<and> frames Debug [3, 0, 0, 0, 4, 0] = Inr ([NewHeartbeat], [4, 0])"
proof -
  have "ParsePacketsFromReadBuffer Debug (sample_stream 9 [3, 0, 0, 0, 4, 0]) =
       Inr ([NewHeartbeat], (sample_stream 9 [])\<lparr>readBuffer := [4, 0, 0, 0, 0, 3, 0, 0, 0], readBufferHead := 2\<rparr>)"
    by code_simp
  moreover have "pending_bytes ((sample_stream 9 [])
      \<lparr>readBuffer := [4, 0, 0, 0, 0, 3, 0, 0, 0], readBufferHead := 2\<rparr>) = [4, 0]"
    by (simp add: pending_bytes_def)
  ultimately show ?thesis
    using ParsePackets_refines_frames [of "sample_stream 9 [3, 0, 0, 0, 4, 0]" Debug] by simp
qed

lemma frames_Debug_not_Diverges: "frames Debug xs \<noteq> Inl Diverges"
proof (induction "Debug" xs rule: frames.induct)
  case (1 xs)
  show ?case
  proof (cases "first_frame Debug xs")
    case (BadFrame e)
    then show ?thesis
      by (auto simp: frames.simps [of Debug xs] first_frame_def split: if_splits option.splits)
  next
    case (FirstFrame p n)
    with 1 show ?thesis by (auto simp: frames.simps [of Debug xs] bindR_eq_Inl split: prod.splits)
  qed (simp add: frames.simps)
qed

lemma parse_loop_more_fuel:
  "parse_loop fuel b buf n off ps = Some r \<Longrightarrow> parse_loop (Suc fuel) b buf n off ps = Some r"
proof (induction fuel arbitrary: off ps)
  case 0
  then show ?case by simp
next
  case (Suc fuel)
  show ?case
  proof (cases "parse_round b buf n off")
    case (Inr x)
    with Suc show ?thesis by (cases x) simp_all
  qed (use Suc in simp)
qed

declare parse_loop.simps [simp del]

lemma parse_loop_fuel_mono:
  assumes "parse_loop fuel b buf n off ps = Some r" and "fuel \<le> fuel'"
  shows "parse_loop fuel' b buf n off ps = Some r"
  using assms(2) by (induction rule: dec_induct) (auto intro: assms(1) parse_loop_more_fuel)

lemma parse_loop_None_iff:
  assumes "stream_wf s"
  shows "parse_loop (Suc (readBufferHead s) + k) b (readBuffer s) (readBufferHead s) 0 [] = None \<longleftrightarrow>
         frames b (pending_bytes s) = Inl Diverges"
proof -
  have "readBufferHead s \<le> length (readBuffer s)" using assms by (simp add: stream_wf_def)
  from parse_loop_frames [OF this le0, of "Suc (readBufferHead s) + k" b "[]"]
  show ?thesis
    by (auto simp: pending_bytes_def split: sum.splits fault.splits)
qed

text \<open>
  C25: the fuel is enough. The loop of the reader runs for ever, whatever the fuel, exactly where
  the model says \<open>Diverges\<close>, and a debug build never gets there.
\<close>

theorem parse_loop_fuel_enough:
  assumes "stream_wf s"
  shows "((\<forall>fuel. parse_loop fuel b (readBuffer s) (readBufferHead s) 0 [] = None) \<longleftrightarrow>
          ParsePacketsFromReadBuffer b s = Inl Diverges)
         \<and> ParsePacketsFromReadBuffer Debug s \<noteq> Inl Diverges"
proof
  let ?loop = "\<lambda>fuel. parse_loop fuel b (readBuffer s) (readBufferHead s) 0 []"
  have "ParsePacketsFromReadBuffer b s = Inl Diverges \<longleftrightarrow> frames b (pending_bytes s) = Inl Diverges" for b
    by (simp add: ParsePackets_cases [OF assms] split: sum.split)
  note div = this
  show "(\<forall>fuel. ?loop fuel = None) \<longleftrightarrow> ParsePacketsFromReadBuffer b s = Inl Diverges"
  proof
    assume "\<forall>fuel. ?loop fuel = None"
    then have "?loop (Suc (readBufferHead s) + 0) = None" by (rule spec)
    then show "ParsePacketsFromReadBuffer b s = Inl Diverges"
      by (simp only: parse_loop_None_iff [OF assms] div)
  next
    assume "ParsePacketsFromReadBuffer b s = Inl Diverges"
    then have none: "?loop (Suc (readBufferHead s) + k) = None" for k
      using parse_loop_None_iff [OF assms, of k b] div by blast
    show "\<forall>fuel. ?loop fuel = None"
    proof (rule allI, rule ccontr)
      fix fuel
      assume "?loop fuel \<noteq> None"
      then obtain r where "?loop fuel = Some r" by blast
      from parse_loop_fuel_mono [OF this, of "Suc (readBufferHead s) + fuel"] none [of fuel]
      show False by simp
    qed
  qed
  show "ParsePacketsFromReadBuffer Debug s \<noteq> Inl Diverges"
    using div [of Debug] frames_Debug_not_Diverges by blast
qed

theorem parse_loop_fuel_enough_witness:
  "stream_wf (sample_stream 8 [2, 0, 0, 0])
   \<and> (\<forall>fuel. parse_loop fuel Release (readBuffer (sample_stream 8 [2, 0, 0, 0]))
            (readBufferHead (sample_stream 8 [2, 0, 0, 0])) 0 [] = None)"
proof -
  have wf: "stream_wf (sample_stream 8 [2, 0, 0, 0])" by simp
  have "ParsePacketsFromReadBuffer Release (sample_stream 8 [2, 0, 0, 0]) = Inl Diverges"
    by code_simp
  with parse_loop_fuel_enough [OF wf, of Release] wf show ?thesis by blast
qed

section \<open>Receiving a byte stream in chunks\<close>

lemma size_t_minus_le [simp]: "n \<le> m \<Longrightarrow> m < 2 ^ 64 \<Longrightarrow> size_t_minus m n = m - n"
  by (simp add: size_t_minus_def)

text \<open>Receiving leaves the sending half alone.\<close>

lemma OnReceive_send_side:
  assumes "OnReceiveComplete b rh off ec chunk s = Inr (s', del, ops)"
  shows "packetSendQueue s' = packetSendQueue s" and "writeBuffers s' = writeBuffers s"
    and "writeId s' = writeId s"
proof -
  have q: "packetSendQueue t' = packetSendQueue t \<and> writeBuffers t' = writeBuffers t \<and> writeId t' = writeId t"
    if "ParsePacketsFromReadBuffer b t = Inr (ps, t')" for t t' ps
    using that by (auto simp: ParsePacketsFromReadBuffer_def split: option.splits sum.splits)
  show "packetSendQueue s' = packetSendQueue s" "writeBuffers s' = writeBuffers s" "writeId s' = writeId s"
    using assms by (auto simp: OnReceiveComplete_def ReadToBuffer_def bindR_eq_Inr Let_def
        split: if_splits sum.splits fault.splits dest!: q)
qed

lemma OnReceive_good:
  assumes wf: "stream_wf s" and c: "c \<noteq> []" "length c \<le> readBufferMaxSize s - readBufferHead s"
    and fr: "frames b (pending_bytes s @ c) = Inr (ps, r)" and ec: "\<not> ec_failed ec"
  shows "\<exists>s'. OnReceiveComplete b h (readBufferHead s) ec c s =
       Inr (s', if ps = [] then None else Some (ec_success, ps),
            if ps = [] then [PendingReceive (length r) (readBufferMaxSize s - length r) h] else [])
     \<and> pending_bytes s' = r \<and> stream_wf s' \<and> readBufferMaxSize s' = readBufferMaxSize s"
proof -
  let ?s1 = "s\<lparr>readBuffer := overwrite (readBufferHead s) c (readBuffer s),
               readBufferHead := readBufferHead s + length c\<rparr>"
  have fits: "readBufferHead s + length c \<le> length (readBuffer s)"
    using wf c by (auto simp: stream_wf_def)
  then have wf1: "stream_wf ?s1" using wf by (auto simp: stream_wf_def)
  have "pending_bytes ?s1 = pending_bytes s @ c"
    using fits by (simp add: pending_bytes_def take_overwrite)
  with ParsePackets_Inr [OF wf1, of b ps r] fr obtain s' where
    s': "ParsePacketsFromReadBuffer b ?s1 = Inr (ps, s')" "pending_bytes s' = r" "stream_wf s'"
      "s' = ?s1\<lparr>readBuffer := readBuffer s', readBufferHead := readBufferHead s'\<rparr>" by auto
  have max: "readBufferMaxSize s' = readBufferMaxSize s"
    by (subst s'(4)) simp
  have head: "readBufferHead s' = length r" using s'(2) length_pending_bytes [OF s'(3)] by simp
  have "length (readBuffer s') = readBufferMaxSize s" "readBuffer s' \<noteq> []"
    "length r \<le> readBufferMaxSize s" "readBufferMaxSize s < 2 ^ 64"
    using s'(3) max head by (auto simp: stream_wf_def)
  then show ?thesis
    using s'(1-3) c(1) ec fits max head
    by (simp add: OnReceiveComplete_def ReadToBuffer_def)
qed

text \<open>One whole packet arrives in an empty buffer.\<close>

lemma OnReceive_one_packet:
  assumes "server_packet p" and "length (serialize p) \<le> readBufferMaxSize s"
    and "stream_wf s" and "pending_bytes s = []"
  shows "\<exists>s'. OnReceiveComplete b h 0 ec_success (serialize p) s = Inr (s', Some (ec_success, [p]), [])
     \<and> pending_bytes s' = [] \<and> stream_wf s' \<and> readBufferMaxSize s' = readBufferMaxSize s
     \<and> packetSendQueue s' = packetSendQueue s \<and> writeBuffers s' = writeBuffers s \<and> writeId s' = writeId s"
proof -
  have "serialize p \<noteq> []" by (simp add: Packet_SerializeInto_def)
  moreover have "readBufferHead s = 0"
    using length_pending_bytes [OF assms(3)] assms(4) by simp
  moreover have "frames b (pending_bytes s @ serialize p) = Inr ([p], [])"
    using frames_serialized [of "[p]" b "[]"] assms(1,4) frame_parser.parse_Nil by simp
  ultimately show ?thesis
    using OnReceive_good [OF assms(3), of "serialize p" b "[p]" "[]" ec_success h] assms(2)
    by (auto dest: OnReceive_send_side)
qed

text \<open>
  Receives one after the other, each started where the one before left the head. The environment
  completes a receive with at least one byte and at most the room it was given; the packets handed
  to the handler are collected.
\<close>

definition receive_step ::
  "build \<Rightarrow> receive_handler \<Rightarrow> bytes \<Rightarrow> Packet list \<times> tcp_packet_stream \<Rightarrow> (Packet list \<times> tcp_packet_stream) result"
where
  "receive_step b h c st =
     (case st of (delivered, s) \<Rightarrow>
       (case OnReceiveComplete b h (readBufferHead s) ec_success c s of
          Inl e \<Rightarrow> Inl e
        | Inr (s', d, ops :: unit op list) \<Rightarrow>
            Inr (delivered @ (case d of None \<Rightarrow> [] | Some (_, ps) \<Rightarrow> ps), s')))"

definition socket_may :: "bytes \<Rightarrow> Packet list \<times> tcp_packet_stream \<Rightarrow> bool" where
  "socket_may c st \<longleftrightarrow>
     c \<noteq> [] \<and> length c \<le> readBufferMaxSize (snd st) - readBufferHead (snd st)"

lemma receive_step_good:
  assumes "stream_wf s" and "socket_may c (del, s)" and "frames b (pending_bytes s @ c) = Inr (ps, r)"
  shows "\<exists>s'. receive_step b h c (del, s) = Inr (del @ ps, s') \<and> pending_bytes s' = r \<and> stream_wf s'
     \<and> readBufferMaxSize s' = readBufferMaxSize s"
proof -
  have c: "c \<noteq> []" "length c \<le> readBufferMaxSize s - readBufferHead s"
    using assms(2) by (simp_all add: socket_may_def)
  obtain s' ops where "OnReceiveComplete b h (readBufferHead s) ec_success c s =
      Inr (s', if ps = [] then None else Some (ec_success, ps), ops :: unit op list)"
    and s': "pending_bytes s' = r" "stream_wf s'" "readBufferMaxSize s' = readBufferMaxSize s"
    using OnReceive_good [OF assms(1) c assms(3) ec_failed_success] by blast
  then have "receive_step b h c (del, s) = Inr (del @ ps, s')"
    by (simp add: receive_step_def)
  with s' show ?thesis by blast
qed

lemma receive_run_feed:
  assumes "stream_wf s" and "feed (frames b) cs (pending_bytes s) = Inr (ps, r)"
    and "allowed (receive_step b h) socket_may cs (del, s)"
  shows "\<exists>s'. foldR (receive_step b h) cs (del, s) = Inr (del @ ps, s') \<and> pending_bytes s' = r
     \<and> stream_wf s' \<and> readBufferMaxSize s' = readBufferMaxSize s"
  using assms
proof (induction cs arbitrary: s del ps)
  case Nil
  then show ?case by simp
next
  case (Cons c cs)
  from Cons.prems(2) obtain qs r1 q where
    f: "frames b (pending_bytes s @ c) = Inr (qs, r1)" "feed (frames b) cs r1 = Inr (q, r)" "ps = qs @ q"
    by (auto simp: bindR_eq_Inr split: prod.splits)
  from receive_step_good [OF Cons.prems(1) _ f(1), of del h] Cons.prems(3) obtain s1 where
    s1: "receive_step b h c (del, s) = Inr (del @ qs, s1)" "pending_bytes s1 = r1" "stream_wf s1"
      "readBufferMaxSize s1 = readBufferMaxSize s" by auto
  from Cons.IH [OF s1(3), of q "del @ qs"] f s1 Cons.prems(3) show ?case by simp
qed

lemma OnReceive_outcome:
  assumes wf: "stream_wf s"
    and room: "\<not> ec_failed ec \<Longrightarrow> length chunk \<le> readBufferMaxSize s - readBufferHead s"
    and r: "OnReceiveComplete b h (readBufferHead s) ec chunk s = Inr (s', del, ops)"
  shows "stream_wf s' \<and> readBufferMaxSize s' = readBufferMaxSize s
     \<and> (if del = None
        then ops = [PendingReceive (readBufferHead s') (readBufferMaxSize s' - readBufferHead s') h]
        else ops = [])"
proof (cases "ec_failed ec")
  case True
  with r wf show ?thesis by (auto simp: OnReceiveComplete_def)
next
  case False
  let ?s1 = "s\<lparr>readBuffer := overwrite (readBufferHead s) chunk (readBuffer s),
               readBufferHead := readBufferHead s + length chunk\<rparr>"
  have wf1: "stream_wf ?s1" using wf room [OF False] by (auto simp: stream_wf_def)
  have r1: "readBuffer t \<noteq> [] \<and> size_t_minus (length (readBuffer t)) (readBufferHead t) =
      readBufferMaxSize t - readBufferHead t" if "stream_wf t" for t
    using that by (auto simp: stream_wf_def)
  show ?thesis
  proof (cases "ParsePacketsFromReadBuffer b ?s1")
    case (Inl e)
    with r False wf1 show ?thesis
      by (cases e) (auto simp: OnReceiveComplete_def Let_def bindR_eq_Inr)
  next
    case (Inr x)
    obtain ps t where x: "x = (ps, t)" by (cases x)
    note wt = ParsePackets_wf [OF wf1 Inr [unfolded x]]
    with r False Inr x r1 [of t] show ?thesis
      by (auto simp: OnReceiveComplete_def Let_def bindR_eq_Inr ReadToBuffer_def split: if_splits)
  qed
qed

text \<open>The reader is a machine whose invariant is the form of the read buffer.\<close>

lemma OnReceive_bad:
  assumes wf: "stream_wf s" and c: "c \<noteq> []" "length c \<le> readBufferMaxSize s - readBufferHead s"
    and fr: "frames b (pending_bytes s @ c) = Inl e" and ec: "\<not> ec_failed ec"
    and r: "OnReceiveComplete b h (readBufferHead s) ec c s = Inr (s', del, ops)"
  shows "del = Some (make_error_code InvalidPacketType, []) \<and> ops = []"
proof -
  let ?s1 = "s\<lparr>readBuffer := overwrite (readBufferHead s) c (readBuffer s),
               readBufferHead := readBufferHead s + length c\<rparr>"
  have fits: "readBufferHead s + length c \<le> length (readBuffer s)"
    using wf c by (auto simp: stream_wf_def)
  then have wf1: "stream_wf ?s1" using wf by (auto simp: stream_wf_def)
  have "pending_bytes ?s1 = pending_bytes s @ c"
    using fits by (simp add: pending_bytes_def take_overwrite)
  with ParsePackets_cases [OF wf1, of b] fr have "ParsePacketsFromReadBuffer b ?s1 = Inl e"
    by simp
  with r c(1) ec fits show ?thesis
    by (auto simp: OnReceiveComplete_def split: fault.splits)
qed

text \<open>What a stream with unread bytes hands to the handler of the handshake response.\<close>

lemma stale_receive:
  fixes ops :: "'cb op list"
  assumes "stream_wf s" and "c \<noteq> []" and "length c \<le> readBufferMaxSize s - readBufferHead s"
    and "pending_bytes s \<noteq> []" and "PacketTypeFromByte (pending_bytes s ! 0) \<noteq> Some Handshake"
    and r: "OnReceiveComplete b h (readBufferHead s) ec_success c s = Inr (s', del, ops)"
  shows "del = None \<and> pending_bytes s' = pending_bytes s @ c
       \<and> ops = [PendingReceive (readBufferHead s') (readBufferMaxSize s' - readBufferHead s') h]
     \<or> (\<exists>ec ps. del = Some (ec, ps) \<and> ops = [] \<and> (ec_failed ec \<or> ps \<noteq> [] \<and> p_type (hd ps) \<noteq> Handshake))"
proof (cases "frames b (pending_bytes s @ c)")
  case (Inl e)
  from OnReceive_bad [OF assms(1-3) this ec_failed_success r] show ?thesis by simp
next
  case (Inr x)
  then obtain ps t where x: "frames b (pending_bytes s @ c) = Inr (ps, t)" by (cases x) auto
  have first: "(pending_bytes s @ c) ! 0 = pending_bytes s ! 0"
    using assms(4) by (simp add: nth_append)
  obtain u where "OnReceiveComplete b h (readBufferHead s) ec_success c s =
       Inr (u, if ps = [] then None else Some (ec_success, ps),
            (if ps = [] then [PendingReceive (length t) (readBufferMaxSize s - length t) h] else [] :: 'cb op list))"
    and "pending_bytes u = t"
    using OnReceive_good [OF assms(1-3) x ec_failed_success, of h] by blast
  with r have d: "del = (if ps = [] then None else Some (ec_success, ps))" "pending_bytes s' = t"
    "ps \<noteq> [] \<longrightarrow> ops = []" by auto
  note out = OnReceive_outcome [OF assms(1,3) r]
  show ?thesis
  proof (cases ps)
    case Nil
    with x d out show ?thesis by (auto dest: frames_Inr_Nil)
  next
    case (Cons p qs)
    with x have "p_type p \<noteq> Handshake" using frames_first_type first assms(5) by metis
    with d Cons show ?thesis by simp
  qed
qed

lemma receive_step_wf:
  assumes "stream_wf (snd st) \<and> readBufferMaxSize (snd st) = n" and "socket_may c st"
    and "receive_step b h c st = Inr st'"
  shows "stream_wf (snd st') \<and> readBufferMaxSize (snd st') = n"
proof -
  obtain del s where st: "st = (del, s)" by (cases st)
  from assms(3) obtain s' d ops where
    r: "OnReceiveComplete b h (readBufferHead s) ec_success c s = Inr (s', d, ops :: unit op list)"
    and s': "snd st' = s'"
    by (auto simp: receive_step_def st split: sum.splits)
  from OnReceive_outcome [OF _ _ r] assms(1,2) show ?thesis
    by (simp add: s' st socket_may_def)
qed

interpretation receiver: machine "receive_step b h" socket_may
    "\<lambda>st. stream_wf (snd st) \<and> readBufferMaxSize (snd st) = n"
  for b h n
  by unfold_locales (rule receive_step_wf)

text \<open>
  No bytes of the network, however malformed, corrupt the reader: as long as the receives end
  without a fault and each brings at most the bytes there is room for, the read buffer keeps its size
  and the head stays inside it.
\<close>

theorem any_bytes_keep_the_buffer:
  assumes "stream_wf s" and "allowed (receive_step b h) socket_may cs (del, s)"
    and "foldR (receive_step b h) cs (del, s) = Inr (del', s')"
  shows "stream_wf s' \<and> readBufferMaxSize s' = readBufferMaxSize s"
  using receiver.run_inv [of "(del, s)" "readBufferMaxSize s", OF _ assms(2,3)] assms(1) by simp

theorem any_bytes_keep_the_buffer_witness:
  "\<exists>s'. foldR (receive_step Release PacketsReceived) [[4, 0, 0], [9, 1, 2]] ([], new_TcpPacketStream 8) = Inr ([], s')
     \<and> stream_wf s'"
proof -
  have wf: "stream_wf (new_TcpPacketStream 8)" by (simp add: stream_wf_def new_TcpPacketStream_def)
  have may: "allowed (receive_step Release PacketsReceived) socket_may [[4, 0, 0], [9, 1, 2]] ([], new_TcpPacketStream 8)"
    by code_simp
  have "map_sum id fst (foldR (receive_step Release PacketsReceived) [[4, 0, 0], [9, 1, 2]] ([], new_TcpPacketStream 8)) =
      Inr []"
    by code_simp
  then obtain s' where
    "foldR (receive_step Release PacketsReceived) [[4, 0, 0], [9, 1, 2]] ([], new_TcpPacketStream 8) = Inr ([], s')"
    by (cases "foldR (receive_step Release PacketsReceived) [[4, 0, 0], [9, 1, 2]] ([], new_TcpPacketStream 8)") auto
  with any_bytes_keep_the_buffer [OF wf may this] show ?thesis by blast
qed

text \<open>
  C2: however the network divides the bytes of a sequence of server packets into chunks that fit
  the room in the buffer, the handler gets exactly these packets, in order, and no byte is left.
\<close>

theorem chunked_delivery:
  assumes "stream_wf s" and "pending_bytes s = []" and "\<forall>p \<in> set ps. server_packet p"
    and "concat cs = concat (map serialize ps)"
    and "allowed (receive_step b h) socket_may cs ([], s)"
  shows "\<exists>s'. foldR (receive_step b h) cs ([], s) = Inr (ps, s') \<and> pending_bytes s' = []
     \<and> stream_wf s'"
proof -
  have "frames b (concat cs) = Inr (ps, [])"
    using frames_serialized [OF assms(3), of b "[]"] assms(4) frame_parser.parse_Nil [of b] by simp
  then have "feed (frames b) cs [] = Inr (ps, [])"
    by (rule frame_parser.feed_eq_parse_Nil)
  with receive_run_feed [OF assms(1), of b cs ps "[]" h "[]"] assms(2,5) show ?thesis by auto
qed

theorem chunked_delivery_witness:
  "\<exists>s'. foldR (receive_step Debug PacketsReceived) [[3, 0, 0], [0, 4, 0, 0], [2, 7, 8]] ([], new_TcpPacketStream 8) =
     Inr ([NewHeartbeat, NewData_range [7, 8]], s') \<and> pending_bytes s' = [] \<and> stream_wf s'"
proof (rule chunked_delivery)
  show "stream_wf (new_TcpPacketStream 8)" by (simp add: stream_wf_def new_TcpPacketStream_def)
  show "allowed (receive_step Debug PacketsReceived) socket_may [[3, 0, 0], [0, 4, 0, 0], [2, 7, 8]]
     ([], new_TcpPacketStream 8)" by code_simp
qed (simp_all add: pending_bytes_def new_TcpPacketStream_def server_packet_def NewHeartbeat_def
    NewData_range_def Packet_SerializeInto_def FirstByte_def SecondByte_def ThirdByte_def)

lemma first_frame_proper_prefix:
  assumes "server_packet p" and "xs @ z = serialize p" and "z \<noteq> []"
  shows "first_frame b xs = NoFrame"
proof (rule ccontr)
  assume n: "first_frame b xs \<noteq> NoFrame"
  have "first_frame b (xs @ z) = FirstFrame p (length (serialize p))"
    using first_frame_serialize [OF assms(1), of b "[]"] assms(2) by simp
  with first_frame_append [OF n] have "first_frame b xs = FirstFrame p (length (serialize p))" by simp
  from first_frame_size [OF this] assms(2) [symmetric] assms(3) show False by simp
qed



lemma frames_HandshakeAck:
  assumes "\<forall>p \<in> set ps. server_packet p" and "length body < 2 ^ 24"
  shows "frames b (concat (map serialize ps) @ serialize \<lparr>p_type = HandshakeAck, p_body = body\<rparr> @ r) =
     Inl (if b = Debug then AssertFailed ''Unexpected packet type from server'' else Diverges)"
proof -
  let ?a = "serialize \<lparr>p_type = HandshakeAck, p_body = body\<rparr> @ r"
  have "frame_length ?a = length body"
    using assms(2) by (simp add: frame_length_def Packet_SerializeInto_def packet_length_of_nat)
  moreover have "PacketTypeFromByte (?a ! 0) = Some HandshakeAck"
    using PacketTypeFromByte_value [of HandshakeAck] by (simp add: Packet_SerializeInto_def)
  moreover have "length ?a = 4 + length body + length r" by (simp add: Packet_SerializeInto_def)
  ultimately have "first_frame b ?a =
      BadFrame (if b = Debug then AssertFailed ''Unexpected packet type from server'' else Diverges)"
    by (simp add: first_frame_def)
  then show ?thesis
    by (simp add: frames_serialized [OF assms(1)] frames.simps [of b ?a])
qed

text \<open>
  A complete handshake ack packet from the server, after any packets, aborts a debug build and
  makes the reading loop of a release build spin for ever on the worker thread.
\<close>

theorem handshake_ack_from_server:
  assumes "stream_wf s" and "\<forall>p \<in> set ps. server_packet p" and "length body < 2 ^ 24"
    and "pending_bytes s =
           concat (map serialize ps) @ serialize \<lparr>p_type = HandshakeAck, p_body = body\<rparr> @ r"
  shows "ParsePacketsFromReadBuffer Release s = Inl Diverges
     \<and> ParsePacketsFromReadBuffer Debug s = Inl (AssertFailed ''Unexpected packet type from server'')"
  using frames_HandshakeAck [OF assms(2,3), of _ r]
  by (simp add: ParsePackets_cases [OF assms(1)] assms(4))

theorem handshake_ack_from_server_witness:
  "ParsePacketsFromReadBuffer Release (sample_stream 8 [3, 0, 0, 0, 2, 0, 0, 0]) = Inl Diverges
   \<and> ParsePacketsFromReadBuffer Debug (sample_stream 8 [3, 0, 0, 0, 2, 0, 0, 0]) =
       Inl (AssertFailed ''Unexpected packet type from server'')"
  by (rule handshake_ack_from_server [where ps = "[NewHeartbeat]" and body = "[]" and r = "[]"])
    (simp_all add: server_packet_def NewHeartbeat_def Packet_SerializeInto_def FirstByte_def
      SecondByte_def ThirdByte_def)

section \<open>The sending half as an interface\<close>

text \<open>
  What the connection relies on of a packet stream: a send either queues the packet and posts one
  task with its handler or does nothing, and a task takes the oldest packet and starts a write of
  exactly its bytes with the handler it carries. The clients get that the queued packets and the
  posted handlers stay matched, so that each write completes with the handler of its own packet.
\<close>

locale packet_sender =
  fixes send :: "Packet \<Rightarrow> 'cb send_handler \<Rightarrow> 's \<Rightarrow> 's \<times> 'cb op list"
    and send_next :: "'cb send_handler \<Rightarrow> 's \<Rightarrow> ('s \<times> 'cb op list) result"
    and queued :: "'s \<Rightarrow> Packet list"
  assumes send_law: "send p h s = (s', ops) \<Longrightarrow>
      (queued s' = queued s @ [p] \<and> ops = [PostedSendNext h]) \<or> (s' = s \<and> ops = [])"
    and send_next_law: "send_next h s = Inr (s', ops) \<Longrightarrow>
      \<exists>p i. queued s = p # queued s' \<and> ops = [PendingSend i (serialize p) h]"
begin

lemma send_matched:
  assumes "list_all2 R (queued s) (send_next_handlers ops)" and "send p h s = (s', new)" and "R p h"
  shows "list_all2 R (queued s') (send_next_handlers (ops @ new))"
  using send_law [OF assms(2)] assms(1,3) by (auto intro: list_all2_appendI)

lemma send_next_matched:
  assumes "list_all2 R (queued s) (h # hs)" and "send_next h s = Inr (s', ops)"
  shows "list_all2 R (queued s') hs \<and> (\<exists>p i. R p h \<and> ops = [PendingSend i (serialize p) h])"
  using send_next_law [OF assms(2)] assms(1) by auto

lemma send_next_length:
  assumes "send_next h s = Inr (s', ops)"
  shows "length (queued s) = Suc (length (queued s'))" and "send_next_handlers ops = []"
  using send_next_law [OF assms] by auto

end

interpretation tcp_sender: packet_sender SendPacket "SendNextPacket b" packetSendQueue for b
proof unfold_locales
  fix p h s s' and ops :: "'a op list"
  assume "SendPacket p h s = (s', ops)"
  then show "(packetSendQueue s' = packetSendQueue s @ [p] \<and> ops = [PostedSendNext h]) \<or> (s' = s \<and> ops = [])"
    by (auto simp: SendPacket_def split: if_splits)
next
  fix h s s' and ops :: "'a op list"
  assume "SendNextPacket b h s = Inr (s', ops)"
  then show "\<exists>p i. packetSendQueue s = p # packetSendQueue s' \<and> ops = [PendingSend i (serialize p) h]"
    by (cases "packetSendQueue s") (auto simp: SendNextPacket_def bindR_eq_Inr Let_def)
qed

text \<open>
  The write buffers: every key was handed out before. As long as the 32-bit counter has not come
  round, the key of the next write is free.
\<close>

definition writes_wf :: "tcp_packet_stream \<Rightarrow> bool" where
  "writes_wf s \<longleftrightarrow> um_wf (writeBuffers s)
     \<and> (\<forall>k. um_find (writeBuffers s) k \<noteq> None \<longrightarrow> k < writeId s)"

lemma word_less_Suc_u32: "unat (n :: u32) + 1 < 2 ^ 32 \<Longrightarrow> k < n \<or> k = n \<longleftrightarrow> k < n + 1"
  by (auto simp: word_less_nat_alt unat_word_ariths word_unat_eq_iff)

text \<open>
  Taking the next packet. With a queued packet and the counter not yet at its end, the step
  succeeds in every build, writes the bytes of the oldest packet, and keeps those bytes under the
  number of the write.
\<close>

theorem SendNextPacket_succeeds:
  assumes "packetSendQueue s = pkt # queue" and "writes_wf s" and "unat (writeId s) + 2 < 2 ^ 32"
  shows "\<exists>s'. SendNextPacket b h s = Inr (s', [PendingSend (writeId s) (serialize pkt) h])
     \<and> packetSendQueue s' = queue \<and> writes_wf s' \<and> writeId s' = writeId s + 1
     \<and> um_find (writeBuffers s') (writeId s) = Some (serialize pkt)"
proof -
  have nxt: "k < writeId s \<or> k = writeId s \<longleftrightarrow> k < writeId s + 1" for k
    using assms(3) by (intro word_less_Suc_u32) simp
  have "\<not> writeId s + 1 < writeId s"
    using assms(3) by (simp add: word_less_nat_alt unat_word_ariths)
  then have "um_find (writeBuffers s) (writeId s + 1) = None"
    using assms(2) by (auto simp: writes_wf_def)
  moreover have "writes_wf (s\<lparr>packetSendQueue := queue, writeId := writeId s + 1,
      writeBuffers := um_set (writeId s) (serialize pkt) (writeBuffers s)\<rparr>)"
    using assms(2) nxt by (auto simp: writes_wf_def um_find_set)
  ultimately show ?thesis
    using assms(1) by (simp add: SendNextPacket_def Let_def um_find_set)
qed

theorem SendNextPacket_succeeds_witness:
  "\<exists>s'. SendNextPacket Debug (HeartbeatSent :: unit send_handler)
          ((new_TcpPacketStream 8)\<lparr>packetSendQueue := [NewHeartbeat]\<rparr>) =
       Inr (s', [PendingSend 0 [3, 0, 0, 0] HeartbeatSent])
     \<and> packetSendQueue s' = [] \<and> writes_wf s' \<and> writeId s' = 1"
  using SendNextPacket_succeeds [of "(new_TcpPacketStream 8)\<lparr>packetSendQueue := [NewHeartbeat]\<rparr>"
      NewHeartbeat "[]" Debug "HeartbeatSent :: unit send_handler"]
  by (auto simp: new_TcpPacketStream_def writes_wf_def NewHeartbeat_def Packet_SerializeInto_def
      FirstByte_def SecondByte_def ThirdByte_def)

end
