(* ===== verification/Tcp_Socket.thy ===== *)
theory Tcp_Socket
  imports Packet_Stream
begin

text \<open>
  \<^verbatim>\<open>include/pitaya/tcp_socket.h\<close> and \<^verbatim>\<open>src/tcp_socket.cpp\<close>: the socket under the packet stream, a
  thin layer over a socket of Boost.Asio. Asio is a parameter: the raw socket's \<^verbatim>\<open>shutdown\<close>,
  \<^verbatim>\<open>is_open\<close> and \<^verbatim>\<open>close\<close>, of which the first and the last can throw. For the asynchronous calls
  what counts is the memory they are given: a store of objects with addresses makes its lifetime explicit.
\<close>

section \<open>Shutting down and closing\<close>

text \<open>A call that can throw gives the text of the exception, if there is one, and the socket after it.\<close>

record 's asio_socket =
  raw_shutdown :: "'s \<Rightarrow> string option \<times> 's"
  raw_is_open :: "'s \<Rightarrow> bool"
  raw_close :: "'s \<Rightarrow> string option \<times> 's"

text \<open>\<^verbatim>\<open>Shutdown\<close> swallows the exception; \<^verbatim>\<open>Close\<close> does not call Asio for a closed socket.\<close>

definition TcpSocket_Shutdown :: "'s asio_socket \<Rightarrow> 's \<Rightarrow> 's" where
  "TcpSocket_Shutdown A s = snd (raw_shutdown A s)"

definition TcpSocket_Close :: "'s asio_socket \<Rightarrow> 's \<Rightarrow> string + 's" where
  "TcpSocket_Close A s =
     (if raw_is_open A s
      then (case raw_close A s of (None, s') \<Rightarrow> Inr s' | (Some what, s') \<Rightarrow> Inl what)
      else Inr s)"

text \<open>The calls the packet stream makes, on the socket.\<close>

fun socket_run :: "'s asio_socket \<Rightarrow> socket_call list \<Rightarrow> 's \<Rightarrow> string + 's" where
  "socket_run A [] s = Inr s"
| "socket_run A (SocketShutdown # cs) s = socket_run A cs (TcpSocket_Shutdown A s)"
| "socket_run A (SocketClose # cs) s =
     (case TcpSocket_Close A s of Inl what \<Rightarrow> Inl what | Inr s' \<Rightarrow> socket_run A cs s')"

text \<open>
  What Asio documents of \<^verbatim>\<open>close\<close>: closing an open socket leaves it closed (that it reports no
  error is assumed where needed). Nothing is assumed of \<^verbatim>\<open>shutdown\<close>, which throws for a socket that is
  not connected.
\<close>

definition closes :: "'s asio_socket \<Rightarrow> bool" where
  "closes A \<longleftrightarrow> (\<forall>s. raw_is_open A s \<longrightarrow> fst (raw_close A s) = None \<and> \<not> raw_is_open A (snd (raw_close A s)))"

lemma TcpSocket_Close_closed:
  "closes A \<Longrightarrow> \<exists>s'. TcpSocket_Close A s = Inr s' \<and> \<not> raw_is_open A s'"
  by (cases "raw_close A s") (auto simp: closes_def TcpSocket_Close_def split: option.split dest!: spec [of _ s])

section \<open>Sending and receiving\<close>

text \<open>
  A store of byte vectors: the blocks that are allocated, and the address of the next block. A buffer
  of Asio (\<^verbatim>\<open>asio::buffer\<close>) is a view, an address with an offset and a length; it owns nothing.
\<close>

record store =
  blocks :: "nat \<rightharpoonup> bytes"
  next_block :: nat

definition alloc :: "bytes \<Rightarrow> store \<Rightarrow> nat \<times> store" where
  "alloc v m = (next_block m, m\<lparr>blocks := (blocks m)(next_block m \<mapsto> v), next_block := next_block m + 1\<rparr>)"

definition free :: "nat \<Rightarrow> store \<Rightarrow> store" where
  "free a m = m\<lparr>blocks := (blocks m)(a := None)\<rparr>"

datatype view = View nat nat nat

text \<open>The bytes of a view; \<open>None\<close> if its block is gone or too short.\<close>

fun view_bytes :: "store \<Rightarrow> view \<Rightarrow> bytes option" where
  "view_bytes m (View a off n) =
     (case blocks m a of
        None \<Rightarrow> None
      | Some v \<Rightarrow> if off + n \<le> length v then Some (take n (drop off v)) else None)"

text \<open>
  \<^verbatim>\<open>Receive\<close> gives Asio a view of the caller's memory. \<^verbatim>\<open>Send\<close> takes its vector by value: the
  parameter is a copy, which is destroyed when the function returns; the view is of the copy.
\<close>

definition TcpSocket_Receive :: "nat \<Rightarrow> nat \<Rightarrow> nat \<Rightarrow> store \<Rightarrow> view \<times> store" where
  "TcpSocket_Receive bufferStart off bufferSize m = (View bufferStart off bufferSize, m)"

definition TcpSocket_Send :: "nat \<Rightarrow> store \<Rightarrow> (view \<times> store) option" where
  "TcpSocket_Send arg m =
     (case blocks m arg of
        None \<Rightarrow> None
      | Some v \<Rightarrow>
          (let (buffer, m1) = alloc v m; view = View buffer 0 (length v)
           in Some (view, free buffer m1)))"

text \<open>
  The memory of \<^verbatim>\<open>TcpPacketStream::SendNextPacket\<close>: the serialized packet is a local vector, which is
  handed to \<^verbatim>\<open>Send\<close> and then moved into \<^verbatim>\<open>_writeBuffers\<close>; a move keeps the block. The result is
  the address of the kept block, the view Asio has, and the store.
\<close>

definition SendNextPacket_memory :: "Packet \<Rightarrow> store \<Rightarrow> (nat \<times> view \<times> store) option" where
  "SendNextPacket_memory pkt m =
     (let (buf, m1) = alloc (Packet_SerializeInto pkt []) m
      in map_option (\<lambda>(view, m2). (buf, view, m2)) (TcpSocket_Send buf m1))"

section \<open>Properties\<close>

text \<open>
  Disconnecting closes the socket and cannot fail. Whatever state the socket is in, also when
  \<^verbatim>\<open>shutdown\<close> throws because the connection is gone already, \<^verbatim>\<open>TcpPacketStream::Disconnect\<close> ends with
  the socket closed and without an exception; once it is closed, a further disconnect that meets a
  \<^verbatim>\<open>shutdown\<close> which opens nothing leaves it closed without a call of \<^verbatim>\<open>close\<close>.
\<close>

theorem disconnect_closes_socket:
  assumes "closes A"
  shows "\<exists>s'. socket_run A TcpPacketStream_Disconnect s = Inr s' \<and> \<not> raw_is_open A s'
     \<and> (\<not> raw_is_open A (TcpSocket_Shutdown A s') \<longrightarrow>
          socket_run A TcpPacketStream_Disconnect s' = Inr (TcpSocket_Shutdown A s'))"
proof -
  from TcpSocket_Close_closed [OF assms, of "TcpSocket_Shutdown A s"]
  obtain s' where "TcpSocket_Close A (TcpSocket_Shutdown A s) = Inr s'" "\<not> raw_is_open A s'" by blast
  then show ?thesis
    by (intro exI [of _ s']) (simp add: TcpPacketStream_Disconnect_def TcpSocket_Close_def)
qed

text \<open>A socket for examples: open or not; \<^verbatim>\<open>shutdown\<close> always throws.\<close>

definition sample_socket :: "bool asio_socket" where
  "sample_socket = \<lparr>raw_shutdown = (\<lambda>s. (Some ''not connected'', s)), raw_is_open = (\<lambda>s. s),
     raw_close = (\<lambda>s. (None, False))\<rparr>"

theorem disconnect_closes_socket_witness:
  "closes sample_socket \<and> socket_run sample_socket TcpPacketStream_Disconnect True = Inr False"
proof -
  have "closes sample_socket" by (simp add: closes_def sample_socket_def)
  with disconnect_closes_socket [OF this, of True] show ?thesis
    by (auto simp: sample_socket_def)
qed



text \<open>
  The memory given to Asio for a receive is the free part of the read buffer. For a well-formed
  stream whose read buffer is block \<open>a\<close>, the view that \<^verbatim>\<open>ReadToBuffer\<close> hands over lies inside the block
  and starts behind the bytes received so far.
\<close>

lemma receive_view_valid:
  assumes "stream_wf s" and "blocks m a = Some (readBuffer s)"
  shows "\<exists>off n. ReadToBuffer h s = Inr [PendingReceive off n h]
     \<and> view_bytes m (fst (TcpSocket_Receive a off n m)) = Some (drop (readBufferHead s) (readBuffer s))
     \<and> take off (readBuffer s) = pending_bytes s"
  using assms by (auto simp: stream_wf_def ReadToBuffer_def TcpSocket_Receive_def pending_bytes_def)

end
