(* ===== verification/Conn_State.thy ===== *)
theory Conn_State
  imports Io_Context
begin

text \<open>
  \<^verbatim>\<open>include/pitaya/connection/state.h\<close> and \<^verbatim>\<open>src/connection/state.cpp\<close>: the state of a
  connection (\<open>Inited\<close> or \<open>Connected\<close>) with its two heartbeat timers. The operations work on the
  state and on the list of started asynchronous operations. Seconds are 64-bit signed counts, kept
  as integers; leaving the range is undefined. Setting an expiry, or destroying a timer, is recorded
  in the pending waits on that timer.
\<close>

section \<open>State\<close>

datatype expiry = ExpiresAfter int | ExpiresAt int

record connected =
  heartbeatInterval :: int
  heartbeatTimeoutSeconds :: int
  serializer :: string
  routeToCode :: "(string, i32) umap"
  codeToRoute :: "(i32, string) umap"
  heartbeatTimer :: expiry
  heartbeatTimeout :: expiry

datatype StateType = Inited | Connected connected

record conn_state =
  st_mutex :: bool
  st_val :: StateType

text \<open>The constructor inverts the route dictionary; the first entry met for a code is kept.\<close>

definition invert_routes :: "(string, i32) umap \<Rightarrow> (i32, string) umap" where
  "invert_routes d = fold (\<lambda>(r, c) m. um_insert c r m) d []"

definition new_connected ::
  "((string, i32) umap \<Rightarrow> (string, i32) umap) \<Rightarrow> int \<Rightarrow> int \<Rightarrow> string \<Rightarrow> (string, i32) umap \<Rightarrow>
   expiry \<Rightarrow> expiry \<Rightarrow> connected"
where
  "new_connected order interval timeout ser routes tick_expiry timeout_expiry =
     \<lparr>heartbeatInterval = interval, heartbeatTimeoutSeconds = timeout, serializer = ser,
      routeToCode = routes, codeToRoute = invert_routes (order routes),
      heartbeatTimer = tick_expiry, heartbeatTimeout = timeout_expiry\<rparr>"

section \<open>Operations\<close>

definition in_int64 :: "int \<Rightarrow> bool" where
  "in_int64 i \<longleftrightarrow> - (2 ^ 63) \<le> i \<and> i < 2 ^ 63"

definition IsConnected :: "conn_state \<Rightarrow> bool" where
  "IsConnected st \<longleftrightarrow> (case st_val st of Inited \<Rightarrow> False | Connected _ \<Rightarrow> True)"

definition drop_heartbeat_timers :: "'cb op list \<Rightarrow> 'cb op list" where
  "drop_heartbeat_timers ops = supersede HeartbeatTimeoutTimer (supersede HeartbeatTimer ops)"

definition SetInited :: "conn_state \<Rightarrow> 'cb op list \<Rightarrow> conn_state \<times> 'cb op list" where
  "SetInited st ops = (st\<lparr>st_val := Inited\<rparr>, drop_heartbeat_timers ops)"

definition kHeartbeatFactor :: int where
  "kHeartbeatFactor = 3"

definition SetConnected ::
  "((string, i32) umap \<Rightarrow> (string, i32) umap) \<Rightarrow> int \<Rightarrow> int \<Rightarrow> string \<Rightarrow> (string, i32) umap \<Rightarrow>
   conn_state \<Rightarrow> 'cb op list \<Rightarrow> (conn_state \<times> 'cb op list) result"
where
  "SetConnected order now interval ser routes st ops =
     (if \<not> in_int64 (interval * kHeartbeatFactor) then Inl (UndefinedBehaviour ''signed overflow'')
      else Inr (st\<lparr>st_val := Connected (new_connected order interval (interval * kHeartbeatFactor) ser routes
                     (ExpiresAfter interval) (ExpiresAt (now + interval * kHeartbeatFactor)))\<rparr>,
                drop_heartbeat_timers ops
                @ [PendingWait HeartbeatTimer False, PendingWait HeartbeatTimeoutTimer False]))"

definition ExtendHeartbeatTimeout :: "int \<Rightarrow> conn_state \<Rightarrow> 'cb op list \<Rightarrow> conn_state \<times> 'cb op list" where
  "ExtendHeartbeatTimeout now st ops =
     (case st_val st of
        Inited \<Rightarrow> (st, ops)
      | Connected c \<Rightarrow>
          (st\<lparr>st_val := Connected (c\<lparr>heartbeatTimeout := ExpiresAt (now + heartbeatTimeoutSeconds c)\<rparr>)\<rparr>,
           supersede HeartbeatTimeoutTimer ops))"

text \<open>
  The tick after its guards: the tick function has run (it sends a heartbeat packet and leaves the
  state alone), the timer is set again and waited for.
\<close>

definition rearm_heartbeat :: "conn_state \<Rightarrow> 'cb op list \<Rightarrow> conn_state \<times> 'cb op list" where
  "rearm_heartbeat st ops =
     (case st_val st of
        Inited \<Rightarrow> (st, ops)
      | Connected c \<Rightarrow>
          (st\<lparr>st_val := Connected (c\<lparr>heartbeatTimer := ExpiresAfter (heartbeatInterval c)\<rparr>)\<rparr>,
           supersede HeartbeatTimer ops @ [PendingWait HeartbeatTimer False]))"

definition HeartbeatTick ::
  "((conn_state \<times> 'cb op list \<Rightarrow> conn_state \<times> 'cb op list) \<Rightarrow> 's \<Rightarrow> 's) \<Rightarrow> ('s \<Rightarrow> conn_state) \<Rightarrow>
   ('s \<Rightarrow> 's result) \<Rightarrow> error_code \<Rightarrow> 's \<Rightarrow> 's result"
where
  "HeartbeatTick upd get tick ec s =
     (if ec_failed ec then Inr s
      else if \<not> IsConnected (get s) then Inr s
      else bindR (tick s) (\<lambda>s'. Inr (upd (\<lambda>(st, ops). rearm_heartbeat st ops) s')))"

section \<open>Effects on the state\<close>

lemma mutex_heartbeats [simp]:
  "st_mutex (fst (ExtendHeartbeatTimeout now st ops)) = st_mutex st"
  "st_mutex (fst (rearm_heartbeat st ops)) = st_mutex st"
  by (simp_all add: ExtendHeartbeatTimeout_def rearm_heartbeat_def split: StateType.split)

lemma IsConnected_simps [simp]:
  "IsConnected (st\<lparr>st_val := Inited\<rparr>) = False"
  "IsConnected (st\<lparr>st_val := Connected c\<rparr>) = True"
  "IsConnected (st\<lparr>st_mutex := m\<rparr>) = IsConnected st"
  "IsConnected (fst (ExtendHeartbeatTimeout now st ops)) = IsConnected st"
  "IsConnected (fst (rearm_heartbeat st ops)) = IsConnected st"
  by (simp_all add: IsConnected_def ExtendHeartbeatTimeout_def rearm_heartbeat_def split: StateType.split)

lemma Connected_IsConnected: "st_val st = Connected c \<Longrightarrow> IsConnected st"
  by (simp add: IsConnected_def)

section \<open>Routes\<close>

lemma um_find_invert_routes:
  "um_find (invert_routes d) c = (case filter (\<lambda>(r, c'). c' = c) d of [] \<Rightarrow> None | (r, _) # _ \<Rightarrow> Some r)"
proof -
  have "um_find (fold (\<lambda>(r, c) m. um_insert c r m) d m) c =
      (case um_find m c of Some r \<Rightarrow> Some r
       | None \<Rightarrow> (case filter (\<lambda>(r, c'). c' = c) d of [] \<Rightarrow> None | (r, _) # _ \<Rightarrow> Some r))" for m
    by (induction d arbitrary: m) (auto simp: um_find_insert split: option.splits)
  from this [of "[]"] show ?thesis by (simp add: invert_routes_def)
qed

lemma um_find_iff_set: "um_wf d \<Longrightarrow> um_find d k = Some v \<longleftrightarrow> (k, v) \<in> set d"
  by (simp add: um_find_def um_wf_def)

text \<open>
  The two dictionaries of a connected state are inverse to each other, whatever the iteration
  order, as long as no two routes share a code; in general a code is mapped to some route that has
  this code.
\<close>

theorem route_dictionaries_inverse:
  assumes "um_wf routes" and "set (order routes) = set routes"
  shows "(um_find (codeToRoute (new_connected order i t ser routes e e')) c = Some r \<longrightarrow>
            um_find routes r = Some c)
     \<and> ((\<forall>r r'. um_find routes r = Some c \<longrightarrow> um_find routes r' = Some c \<longrightarrow> r = r') \<longrightarrow>
          (um_find (codeToRoute (new_connected order i t ser routes e e')) c = Some r \<longleftrightarrow>
           um_find routes r = Some c))"
proof -
  let ?f = "filter (\<lambda>(r, c'). c' = c) (order routes)"
  have find: "um_find (codeToRoute (new_connected order i t ser routes e e')) c =
      (case ?f of [] \<Rightarrow> None | (r, _) # _ \<Rightarrow> Some r)"
    by (simp add: new_connected_def um_find_invert_routes)
  have set: "(r, c') \<in> set ?f \<longleftrightarrow> um_find routes r = Some c \<and> c' = c" for r c'
    using assms by (auto simp: um_find_iff_set)
  have one: "um_find routes r = Some c" if "?f = (r, c') # l" for r c' l
    using set [of r c'] that by simp
  have "(r, c) \<in> set ?f" if "um_find routes r = Some c"
    by (simp only: set that simp_thms)
  then have "?f \<noteq> []" if "um_find routes r = Some c"
    using that by (metis empty_iff empty_set)
  with find one show ?thesis
    by (cases ?f) auto
qed

theorem route_dictionaries_inverse_witness:
  "um_find (codeToRoute (new_connected rev 30 90 ''json'' [(''a'', 1), (''b'', 2)] (ExpiresAfter 30) (ExpiresAt 90))) 2 =
     Some ''b''"
proof -
  let ?d = "[(''a'', 1 :: i32), (''b'', 2)]"
  have "um_wf ?d" and "set (rev ?d) = set ?d" by (auto simp: um_wf_def)
  moreover have "um_find ?d r = Some 2 \<longleftrightarrow> r = ''b''" for r by (simp add: um_find_def)
  ultimately show ?thesis
    using route_dictionaries_inverse [of ?d rev 30 90 "''json''" "ExpiresAfter 30" "ExpiresAt 90" 2 "''b''"]
    by simp
qed

end
