(* ===== verification/Connection.thy ===== *)
theory Connection
  imports Packet_Stream Conn_State Net
begin

text \<open>
  \<^verbatim>\<open>include/pitaya/connection.h\<close> and \<^verbatim>\<open>src/connection.cpp\<close>: the connection. Its record holds
  the members of the class and, as the visible effects, the pending operations of the I/O context,
  the requests posted by the application, the calls of listeners and request handlers, and the calls of the socket. Every member function and
  every closure is one definition; \<open>complete\<close> runs the closure of an operation that the environment
  completes, and \<open>exec\<close> is one step of the system: a call by the application or a completion.
\<close>

section \<open>Parameters\<close>

text \<open>
  The part of rapidjson that the handshake uses. \<open>j_Member\<close> is \<^verbatim>\<open>HasMember\<close> and
  \<^verbatim>\<open>operator[]\<close>; both require an object.
\<close>

record 'v rapidjson =
  j_Parse :: "string \<Rightarrow> 'v option"
  j_IsObject :: "'v \<Rightarrow> bool"
  j_Member :: "'v \<Rightarrow> string \<Rightarrow> 'v option"
  j_Members :: "'v \<Rightarrow> ('v \<times> 'v) list"
  j_IsUint64 :: "'v \<Rightarrow> bool"
  j_GetUint64 :: "'v \<Rightarrow> u64"
  j_IsInt :: "'v \<Rightarrow> bool"
  j_GetInt :: "'v \<Rightarrow> i32"
  j_IsString :: "'v \<Rightarrow> bool"
  j_GetString :: "'v \<Rightarrow> string"

text \<open>
  The environment: the build type, zlib, rapidjson, the messages of Boost's error categories, the
  resolver, the iteration order of the route dictionary, and the identity of the worker thread.
\<close>

record ('z, 'v) env =
  e_build :: build
  e_zlib :: "'z zlib"
  e_json :: "'v rapidjson"
  e_boost_message :: "nat \<Rightarrow> int \<Rightarrow> string"
  e_resolve :: "string \<Rightarrow> string \<Rightarrow> string + unit"
  e_order :: "(string, i32) umap \<Rightarrow> (string, i32) umap"
  e_worker :: nat

section \<open>State\<close>

text \<open>
  \<^verbatim>\<open>struct Request\<close> (\<^verbatim>\<open>include/pitaya/request.h\<close>): a request in flight. Its constructor sets the
  timer and starts the wait on it, which is recorded with the pending operations.
\<close>

record 'cb Request_entry =
  r_handler :: 'cb
  r_timeout :: expiry

definition new_Request :: "'cb \<Rightarrow> int \<Rightarrow> 'cb Request_entry" where
  "new_Request handler timeoutSeconds = \<lparr>r_handler = handler, r_timeout = ExpiresAfter timeoutSeconds\<rparr>"

lemma new_Request_simps [simp]:
  "r_handler (new_Request cb t) = cb" "r_timeout (new_Request cb t) = ExpiresAfter t"
  by (simp_all add: new_Request_def)

record ('l, 'cb) connection =
  reqId :: u64
  state :: conn_state
  packetStream :: tcp_packet_stream
  workerThreadId :: "nat option"
  eventListeners :: "'l EventListeners"
  inFlightRequests :: "(u64, 'cb Request_entry) umap"
  ioContext :: "'cb op list"
  clock :: int
  postedRequests :: "'cb list"
  listenerCalls :: "('l \<times> Event \<times> string) list"
  handlerCalls :: "('cb \<times> RequestStatus \<times> bytes) list"
  socketCalls :: "socket_call list"

definition new_Connection :: "('z, 'v) env \<Rightarrow> ('l, 'cb) connection" where
  "new_Connection E =
     \<lparr>reqId = 1, state = \<lparr>st_mutex = False, st_val = Inited\<rparr>,
      packetStream = new_TcpPacketStream 2048, workerThreadId = Some (e_worker E),
      eventListeners = \<lparr>el_mutex = False, el_listeners = []\<rparr>, inFlightRequests = [],
      ioContext = [], clock = 0, postedRequests = [], listenerCalls = [], handlerCalls = [], socketCalls = []\<rparr>"

section \<open>Effects\<close>

definition start_ops :: "'cb op list \<Rightarrow> ('l, 'cb) connection \<Rightarrow> ('l, 'cb) connection" where
  "start_ops ops w = w\<lparr>ioContext := ioContext w @ ops\<rparr>"

definition call_handler ::
  "'cb \<Rightarrow> RequestStatus \<Rightarrow> bytes \<Rightarrow> ('l, 'cb) connection \<Rightarrow> ('l, 'cb) connection"
where
  "call_handler cb status data w = w\<lparr>handlerCalls := handlerCalls w @ [(cb, status, data)]\<rparr>"

definition broadcast :: "Event \<Rightarrow> string \<Rightarrow> ('l, 'cb) connection \<Rightarrow> ('l, 'cb) connection" where
  "broadcast ev msg w =
     w\<lparr>listenerCalls := listenerCalls w @ EventListeners_Broadcast (eventListeners w) ev msg\<rparr>"

definition set_state ::
  "(conn_state \<times> 'cb op list \<Rightarrow> conn_state \<times> 'cb op list) \<Rightarrow> ('l, 'cb) connection \<Rightarrow> ('l, 'cb) connection"
where
  "set_state f w = (case f (state w, ioContext w) of (st, ops) \<Rightarrow> w\<lparr>state := st, ioContext := ops\<rparr>)"

definition send_packet ::
  "Packet \<Rightarrow> 'cb send_handler \<Rightarrow> ('l, 'cb) connection \<Rightarrow> ('l, 'cb) connection"
where
  "send_packet p h w =
     (case SendPacket p h (packetStream w) of (s, ops) \<Rightarrow> start_ops ops (w\<lparr>packetStream := s\<rparr>))"

definition receive_packets ::
  "receive_handler \<Rightarrow> ('l, 'cb) connection \<Rightarrow> ('l, 'cb) connection result"
where
  "receive_packets h w = bindR (ReceivePackets h (packetStream w)) (\<lambda>ops. Inr (start_ops ops w))"

definition disconnect :: "('l, 'cb) connection \<Rightarrow> ('l, 'cb) connection" where
  "disconnect w = w\<lparr>socketCalls := socketCalls w @ TcpPacketStream_Disconnect\<rparr>"

text \<open>\<^verbatim>\<open>std::lock_guard<State>\<close>: the mutex is not recursive.\<close>

definition set_mutex :: "bool \<Rightarrow> ('l, 'cb) connection \<Rightarrow> ('l, 'cb) connection" where
  "set_mutex m w = w\<lparr>state := (state w)\<lparr>st_mutex := m\<rparr>\<rparr>"

definition with_state_lock ::
  "(('l, 'cb) connection \<Rightarrow> ('l, 'cb) connection result) \<Rightarrow> ('l, 'cb) connection \<Rightarrow> ('l, 'cb) connection result"
where
  "with_state_lock f w =
     (if st_mutex (state w) then Inl Deadlock
      else bindR (f (set_mutex True w)) (\<lambda>w'. Inr (set_mutex False w')))"

section \<open>Failures and kicks\<close>

definition HandshakeFailed ::
  "('z, 'v) env \<Rightarrow> error_code \<Rightarrow> ('l, 'cb) connection \<Rightarrow> ('l, 'cb) connection result"
where
  "HandshakeFailed E ec =
     with_state_lock (\<lambda>w.
       Inr (broadcast EvConnectionFailed (ec_message (e_boost_message E) ec)
              (set_state (\<lambda>(st, ops). SetInited st ops) w)))"

definition Connection_ConnectionError ::
  "('z, 'v) env \<Rightarrow> error_code \<Rightarrow> ('l, 'cb) connection \<Rightarrow> ('l, 'cb) connection result"
where
  "Connection_ConnectionError E ec =
     with_state_lock (\<lambda>w.
       if IsConnected (state w)
       then Inr (disconnect (broadcast EvConnectionError (ec_message (e_boost_message E) ec)
                   (set_state (\<lambda>(st, ops). SetInited st ops) w)))
       else Inr w)"

definition KickedFromServer :: "('l, 'cb) connection \<Rightarrow> ('l, 'cb) connection result" where
  "KickedFromServer =
     with_state_lock (\<lambda>w.
       if IsConnected (state w)
       then Inr (disconnect (broadcast EvKicked ''Kicked from server''
                   (set_state (\<lambda>(st, ops). SetInited st ops) w)))
       else Inr w)"

section \<open>Requests and messages\<close>

definition erase_request :: "u64 \<Rightarrow> ('l, 'cb) connection \<Rightarrow> ('l, 'cb) connection" where
  "erase_request i w =
     w\<lparr>inFlightRequests := um_erase i (inFlightRequests w),
       ioContext := supersede (RequestTimer i) (ioContext w)\<rparr>"

definition ProcessRequestTimeout :: "u64 \<Rightarrow> ('l, 'cb) connection \<Rightarrow> ('l, 'cb) connection" where
  "ProcessRequestTimeout i w =
     (case um_find (inFlightRequests w) i of
        None \<Rightarrow> w
      | Some req \<Rightarrow> erase_request i (call_handler (r_handler req) Timeout [] w))"

definition OnRequestTimer :: "u64 \<Rightarrow> error_code \<Rightarrow> ('l, 'cb) connection \<Rightarrow> ('l, 'cb) connection" where
  "OnRequestTimer i ec w = (if ec_failed ec then w else ProcessRequestTimeout i w)"

definition ProcessMessage :: "Message \<Rightarrow> ('l, 'cb) connection \<Rightarrow> ('l, 'cb) connection" where
  "ProcessMessage msg w =
     (case m_type msg of
        Response \<Rightarrow>
          (case um_find (inFlightRequests w) (m_id msg) of
             None \<Rightarrow> w
           | Some req \<Rightarrow>
               erase_request (m_id msg)
                 (if m_error msg then call_handler (r_handler req) ServerError (m_data msg) w
                  else call_handler (r_handler req) Ok (m_data msg) w))
      | Push \<Rightarrow> w
      | Request \<Rightarrow> w
      | Notify \<Rightarrow> w)"

definition ProcessPacket ::
  "('z, 'v) env \<Rightarrow> Packet \<Rightarrow> ('l, 'cb) connection \<Rightarrow> ('l, 'cb) connection result"
where
  "ProcessPacket E packet w =
     (case p_type packet of
        Heartbeat \<Rightarrow> Inr (set_state (\<lambda>(st, ops). ExtendHeartbeatTimeout (clock w) st ops) w)
      | Data \<Rightarrow>
          (case st_val (state w) of
             Inited \<Rightarrow> Connection_ConnectionError E (make_error_code WrongPacket) w
           | Connected c \<Rightarrow>
               bindR (Deserialize (e_zlib E) (p_body packet) (codeToRoute c)) (\<lambda>maybeMsg.
               (case maybeMsg of
                  None \<Rightarrow> Connection_ConnectionError E (make_error_code InvalidMessage) w
                | Some msg \<Rightarrow> Inr (ProcessMessage msg w))))
      | Kick \<Rightarrow> KickedFromServer w
      | _ \<Rightarrow>
          bindR (cassert (e_build E) False ''Should not receive packets other than heartbeat, data and kick'')
            (\<lambda>_. Connection_ConnectionError E (make_error_code WrongPacket) w))"

definition OnPacketsReceived ::
  "('z, 'v) env \<Rightarrow> error_code \<Rightarrow> Packet list \<Rightarrow> ('l, 'cb) connection \<Rightarrow> ('l, 'cb) connection result"
where
  "OnPacketsReceived E ec packets w =
     (if ec_failed ec then Connection_ConnectionError E ec w
      else
        bindR (cassert (e_build E) (length packets = 1) ''packets.size() == 1'') (\<lambda>_.
        bindR (foldR (ProcessPacket E) packets w) (receive_packets PacketsReceived)))"

section \<open>Posting a request\<close>

definition PostRequest ::
  "string \<Rightarrow> bytes \<Rightarrow> int \<Rightarrow> 'cb \<Rightarrow> ('l, 'cb) connection \<Rightarrow> ('l, 'cb) connection"
where
  "PostRequest route data timeout handler w =
     start_ops [PostedRequest route data timeout handler] (w\<lparr>postedRequests := postedRequests w @ [handler]\<rparr>)"

text \<open>The posted task (the outer lambda of \<^verbatim>\<open>PostRequest\<close>), on thread \<open>tid\<close>.\<close>

definition RunPostedRequest ::
  "('z, 'v) env \<Rightarrow> nat \<Rightarrow> string \<Rightarrow> bytes \<Rightarrow> int \<Rightarrow> 'cb \<Rightarrow> ('l, 'cb) connection \<Rightarrow> ('l, 'cb) connection result"
where
  "RunPostedRequest E tid route data timeout handler w =
     (case st_val (state w) of
        Inited \<Rightarrow> Inr (call_handler handler NotConnectedError [] w)
      | Connected c \<Rightarrow>
          bindR (cassert (e_build E) (Some tid = workerThreadId w) ''worker thread'') (\<lambda>_.
          (let msg = NewRequest (reqId w) route data in
           bindR (NewData msg (routeToCode c)) (\<lambda>packet.
           Inr (send_packet packet (RequestSent timeout msg handler) (w\<lparr>reqId := reqId w + 1\<rparr>))))))"

text \<open>
  The handler of the sent request (the inner lambda). \<^verbatim>\<open>emplace\<close> builds the entry, with its timer
  and its wait, and destroys it again if the key is taken.
\<close>

definition OnRequestSent ::
  "('z, 'v) env \<Rightarrow> int \<Rightarrow> Message \<Rightarrow> 'cb \<Rightarrow> error_code \<Rightarrow> ('l, 'cb) connection \<Rightarrow> ('l, 'cb) connection result"
where
  "OnRequestSent E timeout msg handler ec w =
     (if ec_failed ec then Inr (call_handler handler InternalError [] w)
      else
        (let taken = (um_find (inFlightRequests w) (m_id msg) \<noteq> None) in
         bindR (cassert (e_build E) (\<not> taken) ''The request id should be unique'') (\<lambda>_.
         Inr (start_ops [PendingWait (RequestTimer (m_id msg)) taken]
                (w\<lparr>inFlightRequests := um_insert (m_id msg) (new_Request handler timeout) (inFlightRequests w)\<rparr>)))))"

section \<open>The handshake\<close>

definition json_HasMember :: "build \<Rightarrow> 'v rapidjson \<Rightarrow> 'v \<Rightarrow> string \<Rightarrow> bool result" where
  "json_HasMember b J v k =
     (if j_IsObject J v then Inr (j_Member J v k \<noteq> None)
      else if b = Debug then Inl (AssertFailed ''IsObject()'')
      else Inl (UndefinedBehaviour ''member of a value that is no object''))"

definition read_serializer :: "'v rapidjson \<Rightarrow> 'v \<Rightarrow> string" where
  "read_serializer J sys =
     (case j_Member J sys ''serializer'' of
        None \<Rightarrow> ''json''
      | Some v \<Rightarrow> (if j_IsString J v then c_str (j_GetString J v) else ''json''))"

definition read_routes :: "'v rapidjson \<Rightarrow> 'v \<Rightarrow> (string, i32) umap" where
  "read_routes J sys =
     (case j_Member J sys ''dict'' of
        None \<Rightarrow> []
      | Some d \<Rightarrow>
          (if j_IsObject J d
           then fold (\<lambda>(name, v) m.
                  if j_IsString J name \<and> j_IsInt J v
                  then um_insert (c_str (j_GetString J name)) (j_GetInt J v) m else m)
                (j_Members J d) []
           else []))"

text \<open>
  What the handshake response must hold: heartbeat interval, serializer and routes; \<open>None\<close> is one of
  the four error returns of \<^verbatim>\<open>SendHandshakeAck\<close>. The interval is an unsigned number that becomes a
  signed count of seconds.
\<close>

definition parse_handshake ::
  "build \<Rightarrow> 'v rapidjson \<Rightarrow> string \<Rightarrow> (int \<times> string \<times> (string, i32) umap) option result"
where
  "parse_handshake b J response =
     (case j_Parse J (c_str response) of
        None \<Rightarrow> Inr None
      | Some doc \<Rightarrow>
          bindR (json_HasMember b J doc ''sys'') (\<lambda>has_sys.
          (case j_Member J doc ''sys'' of
             None \<Rightarrow> Inr None
           | Some sys \<Rightarrow>
               bindR (json_HasMember b J sys ''heartbeat'') (\<lambda>has_heartbeat.
               (case j_Member J sys ''heartbeat'' of
                  None \<Rightarrow> Inr None
                | Some hb \<Rightarrow>
                    (if \<not> j_IsUint64 J hb then Inr None
                     else Inr (Some (sint (j_GetUint64 J hb), read_serializer J sys, read_routes J sys))))))))"

definition SendHandshakeAck ::
  "('z, 'v) env \<Rightarrow> string \<Rightarrow> ('l, 'cb) connection \<Rightarrow> ('l, 'cb) connection result"
where
  "SendHandshakeAck E handshakeResponse w =
     bindR (parse_handshake (e_build E) (e_json E) handshakeResponse) (\<lambda>info.
     (case info of
        None \<Rightarrow> Connection_ConnectionError E (make_error_code InvalidHeartbeatJson) w
      | Some (interval, ser, routes) \<Rightarrow>
          Inr (send_packet NewHandshakeAck (HandshakeAckSent interval ser routes) w)))"

definition OnHandshakeResponse ::
  "('z, 'v) env \<Rightarrow> error_code \<Rightarrow> Packet list \<Rightarrow> ('l, 'cb) connection \<Rightarrow> ('l, 'cb) connection result"
where
  "OnHandshakeResponse E ec packets w =
     (if ec_failed ec then HandshakeFailed E ec w
      else
        bindR (cassert (e_build E) (length packets > 0) ''packets.size() > 0'') (\<lambda>_.
        (case packets of
           [] \<Rightarrow> Inl (UndefinedBehaviour ''vector index'')
         | packet # others \<Rightarrow>
             (if others \<noteq> [] then HandshakeFailed E (make_error_code TooManyPackets) w
              else if p_type packet \<noteq> Handshake then HandshakeFailed E (make_error_code WrongPacket) w
              else if IsCompressed (p_body packet) then
                (case Decompress (e_zlib E) (p_body packet) 0 of
                   None \<Rightarrow> Inl Diverges
                 | Some (rc, output, n) \<Rightarrow>
                     (if rc \<noteq> 0
                      then Connection_ConnectionError E (make_error_code InvalidHandshakeCompression) w
                      else bindR (inflated_bytes output n) (\<lambda>bs.
                             SendHandshakeAck E (string_of_bytes bs) w)))
              else SendHandshakeAck E (string_of_bytes (p_body packet)) w))))"

definition ReceiveHandshakeResponse ::
  "('z, 'v) env \<Rightarrow> nat \<Rightarrow> ('l, 'cb) connection \<Rightarrow> ('l, 'cb) connection result"
where
  "ReceiveHandshakeResponse E tid w =
     bindR (cassert (e_build E) (Some tid = workerThreadId w) ''worker thread'') (\<lambda>_.
     receive_packets HandshakeResponseReceived w)"

definition handshake_json :: string where
  "handshake_json =
     ''{\"sys\": {\"platform\": \"mac\", \"libVersion\": \"0.3.5-release\", ''
     @ ''\"clientBuildNumber\": \"20\", \"clientVersion\": \"2.1\"}, \"user\": {}}''"

definition SendHandshake ::
  "('z, 'v) env \<Rightarrow> nat \<Rightarrow> ('l, 'cb) connection \<Rightarrow> ('l, 'cb) connection result"
where
  "SendHandshake E tid w =
     bindR (cassert (e_build E) (Some tid = workerThreadId w) ''worker thread'') (\<lambda>_.
     Inr (send_packet (NewHandshake handshake_json) HandshakeSent w))"

definition OnHandshakeSent ::
  "('z, 'v) env \<Rightarrow> nat \<Rightarrow> error_code \<Rightarrow> ('l, 'cb) connection \<Rightarrow> ('l, 'cb) connection result"
where
  "OnHandshakeSent E tid ec w =
     (if ec_failed ec then HandshakeFailed E ec w else ReceiveHandshakeResponse E tid w)"

definition StartReceivingPackets ::
  "('z, 'v) env \<Rightarrow> int \<Rightarrow> string \<Rightarrow> (string, i32) umap \<Rightarrow> ('l, 'cb) connection \<Rightarrow> ('l, 'cb) connection result"
where
  "StartReceivingPackets E interval ser routes w =
     bindR (with_state_lock (\<lambda>w.
              bindR (SetConnected (e_order E) (clock w) interval ser routes (state w) (ioContext w)) (\<lambda>(st, ops).
              Inr (broadcast EvConnected ''Connection successful'' (w\<lparr>state := st, ioContext := ops\<rparr>)))) w)
       (receive_packets PacketsReceived)"

definition OnHandshakeAckSent ::
  "('z, 'v) env \<Rightarrow> int \<Rightarrow> string \<Rightarrow> (string, i32) umap \<Rightarrow> error_code \<Rightarrow> ('l, 'cb) connection \<Rightarrow> ('l, 'cb) connection result"
where
  "OnHandshakeAckSent E interval ser routes ec w =
     (if ec_failed ec then Inr w else StartReceivingPackets E interval ser routes w)"

definition OnConnect ::
  "('z, 'v) env \<Rightarrow> nat \<Rightarrow> error_code \<Rightarrow> ('l, 'cb) connection \<Rightarrow> ('l, 'cb) connection result"
where
  "OnConnect E tid ec w =
     bindR (cassert (e_build E) (Some tid = workerThreadId w) ''worker thread'') (\<lambda>_.
     (if ec_failed ec then HandshakeFailed E ec w else SendHandshake E tid w))"

definition Start ::
  "('z, 'v) env \<Rightarrow> nat \<Rightarrow> string \<Rightarrow> ('l, 'cb) connection \<Rightarrow> ('l, 'cb) connection result"
where
  "Start E tid address w =
     bindR (cassert (e_build E) (Some tid \<noteq> workerThreadId w) ''worker thread'') (\<lambda>_.
     (case SplitHostAndPort address of
        None \<Rightarrow> Inr w
      | Some (host, port) \<Rightarrow>
          bindR (TcpPacketStream_Connect (e_resolve E) host port) (\<lambda>ops. Inr (start_ops ops w))))"

section \<open>Heartbeats\<close>

definition OnHeartbeatSent ::
  "('z, 'v) env \<Rightarrow> error_code \<Rightarrow> ('l, 'cb) connection \<Rightarrow> ('l, 'cb) connection result"
where
  "OnHeartbeatSent E ec w = (if ec_failed ec then Connection_ConnectionError E ec w else Inr w)"

definition heartbeatTick :: "('l, 'cb) connection \<Rightarrow> ('l, 'cb) connection result" where
  "heartbeatTick w = Inr (send_packet NewHeartbeat HeartbeatSent w)"

definition OnHeartbeatTimer :: "error_code \<Rightarrow> ('l, 'cb) connection \<Rightarrow> ('l, 'cb) connection result" where
  "OnHeartbeatTimer ec w = HeartbeatTick set_state state heartbeatTick ec w"

definition OnHeartbeatTimeout ::
  "('z, 'v) env \<Rightarrow> error_code \<Rightarrow> ('l, 'cb) connection \<Rightarrow> ('l, 'cb) connection result"
where
  "OnHeartbeatTimeout E ec w =
     (if ec_failed ec then Inr w
      else Connection_ConnectionError E (make_error_code HeartbeatTimeout) w)"

section \<open>Listeners\<close>

definition AddEventListener :: "'l \<Rightarrow> ('l, 'cb) connection \<Rightarrow> ('l, 'cb) connection result" where
  "AddEventListener l w =
     (if el_mutex (eventListeners w) then Inl Deadlock
      else Inr (w\<lparr>eventListeners := EventListeners_Add l (eventListeners w)\<rparr>))"

section \<open>Completions and steps\<close>

text \<open>How the environment completes an operation, and which completion an operation can have.\<close>

datatype completion =
    Run
  | ConnectDone error_code
  | SendDone error_code nat
  | ReceiveDone error_code bytes
  | WaitDone error_code

definition run_send_handler ::
  "('z, 'v) env \<Rightarrow> 'cb send_handler \<Rightarrow> error_code \<Rightarrow> ('l, 'cb) connection \<Rightarrow> ('l, 'cb) connection result"
where
  "run_send_handler E h ec w =
     (case h of
        RequestSent timeout msg handler \<Rightarrow> OnRequestSent E timeout msg handler ec w
      | HandshakeSent \<Rightarrow> OnHandshakeSent E (e_worker E) ec w
      | HandshakeAckSent interval ser routes \<Rightarrow> OnHandshakeAckSent E interval ser routes ec w
      | HeartbeatSent \<Rightarrow> OnHeartbeatSent E ec w)"

definition run_receive_handler ::
  "('z, 'v) env \<Rightarrow> receive_handler \<Rightarrow> error_code \<Rightarrow> Packet list \<Rightarrow> ('l, 'cb) connection \<Rightarrow> ('l, 'cb) connection result"
where
  "run_receive_handler E h ec packets w =
     (case h of
        HandshakeResponseReceived \<Rightarrow> OnHandshakeResponse E ec packets w
      | PacketsReceived \<Rightarrow> OnPacketsReceived E ec packets w)"

definition update_stream ::
  "(tcp_packet_stream \<Rightarrow> tcp_packet_stream) \<Rightarrow> ('l, 'cb) connection \<Rightarrow> ('l, 'cb) connection"
where
  "update_stream f w = w\<lparr>packetStream := f (packetStream w)\<rparr>"

text \<open>
  The closure of a completed operation, on the worker thread; \<open>None\<close> for a completion of another
  kind of operation.
\<close>

fun complete ::
  "('z, 'v) env \<Rightarrow> 'cb op \<Rightarrow> completion \<Rightarrow> ('l, 'cb) connection \<Rightarrow> ('l, 'cb) connection result option"
where
  "complete E (PostedRequest route data timeout handler) Run w =
     Some (RunPostedRequest E (e_worker E) route data timeout handler w)"
| "complete E (PostedSendNext h) Run w =
     Some (bindR (SendNextPacket (e_build E) h (packetStream w)) (\<lambda>(s, ops).
       Inr (start_ops ops (w\<lparr>packetStream := s\<rparr>))))"
| "complete E (PendingConnect host port) (ConnectDone ec) w =
     Some (OnConnect E (e_worker E) (if ec_failed ec then ec else ec_success) w)"
| "complete E (PendingSend bid buf h) (SendDone ec n) w =
     Some (OnSendComplete update_stream (run_send_handler E h) bid ec n w)"
| "complete E (PendingReceive off n h) (ReceiveDone ec chunk) w =
     Some (bindR (OnReceiveComplete (e_build E) h off ec chunk (packetStream w)) (\<lambda>(s, d, ops).
       (let w' = start_ops ops (w\<lparr>packetStream := s\<rparr>) in
        (case d of
           None \<Rightarrow> Inr w'
         | Some (ec', packets) \<Rightarrow> run_receive_handler E h ec' packets w'))))"
| "complete E (PendingWait HeartbeatTimer sp) (WaitDone ec) w = Some (OnHeartbeatTimer ec w)"
| "complete E (PendingWait HeartbeatTimeoutTimer sp) (WaitDone ec) w = Some (OnHeartbeatTimeout E ec w)"
| "complete E (PendingWait (RequestTimer i) sp) (WaitDone ec) w = Some (Inr (OnRequestTimer i ec w))"
| "complete E _ _ w = None"

datatype ('l, 'cb) event =
    UserStart nat string
  | UserRequest string bytes int 'cb
  | UserAddListener 'l
  | Completion nat completion int

definition take_op :: "nat \<Rightarrow> ('l, 'cb) connection \<Rightarrow> ('l, 'cb) connection" where
  "take_op i w = w\<lparr>ioContext := take i (ioContext w) @ drop (Suc i) (ioContext w)\<rparr>"

text \<open>
  One step. An exception of \<open>Start\<close> goes to the application and leaves the connection as it is; a
  fault on the worker thread ends the run. A completion names the pending operation by its place in
  the list and gives the time of day; one that fits no pending operation is no step of the system.
\<close>

fun exec ::
  "('z, 'v) env \<Rightarrow> ('l, 'cb) event \<Rightarrow> ('l, 'cb) connection \<Rightarrow> ('l, 'cb) connection result"
where
  "exec E (UserStart tid address) w =
     (case Start E tid address w of
        Inl (PitayaException _) \<Rightarrow> Inr w
      | r \<Rightarrow> r)"
| "exec E (UserRequest route data timeout handler) w = Inr (PostRequest route data timeout handler w)"
| "exec E (UserAddListener l) w = AddEventListener l w"
| "exec E (Completion i c now) w =
     (if i < length (ioContext w)
      then (case complete E (ioContext w ! i) c ((take_op i w)\<lparr>clock := now\<rparr>) of
              None \<Rightarrow> Inr w
            | Some r \<Rightarrow> r)
      else Inr w)"

section \<open>Effects of the handlers\<close>

text \<open>The effect on a connection that leaves the connected state or does not reach it.\<close>

definition to_inited :: "Event \<Rightarrow> string \<Rightarrow> ('l, 'cb) connection \<Rightarrow> ('l, 'cb) connection" where
  "to_inited ev msg w = broadcast ev msg (set_state (\<lambda>(st, ops). SetInited st ops) w)"

lemma start_ops_simps [simp]:
  "state (start_ops ops w) = state w"
  "ioContext (start_ops ops w) = ioContext w @ ops"
  "inFlightRequests (start_ops ops w) = inFlightRequests w"
  "handlerCalls (start_ops ops w) = handlerCalls w"
  "postedRequests (start_ops ops w) = postedRequests w"
  "reqId (start_ops ops w) = reqId w"
  "packetStream (start_ops ops w) = packetStream w"
  "eventListeners (start_ops ops w) = eventListeners w"
  "listenerCalls (start_ops ops w) = listenerCalls w"
  by (simp_all add: start_ops_def split: prod.split)

lemma call_handler_simps [simp]:
  "state (call_handler cb st d w) = state w"
  "ioContext (call_handler cb st d w) = ioContext w"
  "inFlightRequests (call_handler cb st d w) = inFlightRequests w"
  "handlerCalls (call_handler cb st d w) = handlerCalls w @ [(cb, st, d)]"
  "postedRequests (call_handler cb st d w) = postedRequests w"
  "reqId (call_handler cb st d w) = reqId w"
  "packetStream (call_handler cb st d w) = packetStream w"
  "eventListeners (call_handler cb st d w) = eventListeners w"
  "listenerCalls (call_handler cb st d w) = listenerCalls w"
  by (simp_all add: call_handler_def split: prod.split)

lemma broadcast_simps [simp]:
  "state (broadcast ev msg w) = state w"
  "ioContext (broadcast ev msg w) = ioContext w"
  "inFlightRequests (broadcast ev msg w) = inFlightRequests w"
  "handlerCalls (broadcast ev msg w) = handlerCalls w"
  "postedRequests (broadcast ev msg w) = postedRequests w"
  "reqId (broadcast ev msg w) = reqId w"
  "packetStream (broadcast ev msg w) = packetStream w"
  "eventListeners (broadcast ev msg w) = eventListeners w"
  "listenerCalls (broadcast ev msg w) = listenerCalls w @ EventListeners_Broadcast (eventListeners w) ev msg"
  by (simp_all add: broadcast_def split: prod.split)

lemma disconnect_simps [simp]:
  "state (disconnect w) = state w"
  "ioContext (disconnect w) = ioContext w"
  "inFlightRequests (disconnect w) = inFlightRequests w"
  "handlerCalls (disconnect w) = handlerCalls w"
  "postedRequests (disconnect w) = postedRequests w"
  "reqId (disconnect w) = reqId w"
  "packetStream (disconnect w) = packetStream w"
  "eventListeners (disconnect w) = eventListeners w"
  "listenerCalls (disconnect w) = listenerCalls w"
  by (simp_all add: disconnect_def split: prod.split)

lemma erase_request_simps [simp]:
  "state (erase_request i w) = state w"
  "ioContext (erase_request i w) = supersede (RequestTimer i) (ioContext w)"
  "inFlightRequests (erase_request i w) = um_erase i (inFlightRequests w)"
  "handlerCalls (erase_request i w) = handlerCalls w"
  "postedRequests (erase_request i w) = postedRequests w"
  "reqId (erase_request i w) = reqId w"
  "packetStream (erase_request i w) = packetStream w"
  "eventListeners (erase_request i w) = eventListeners w"
  "listenerCalls (erase_request i w) = listenerCalls w"
  by (simp_all add: erase_request_def split: prod.split)

lemma update_stream_simps [simp]:
  "state (update_stream f w) = state w"
  "ioContext (update_stream f w) = ioContext w"
  "inFlightRequests (update_stream f w) = inFlightRequests w"
  "handlerCalls (update_stream f w) = handlerCalls w"
  "postedRequests (update_stream f w) = postedRequests w"
  "reqId (update_stream f w) = reqId w"
  "packetStream (update_stream f w) = f (packetStream w)"
  "eventListeners (update_stream f w) = eventListeners w"
  "listenerCalls (update_stream f w) = listenerCalls w"
  by (simp_all add: update_stream_def split: prod.split)

lemma take_op_simps [simp]:
  "state (take_op j w) = state w"
  "ioContext (take_op j w) = take j (ioContext w) @ drop (Suc j) (ioContext w)"
  "inFlightRequests (take_op j w) = inFlightRequests w"
  "handlerCalls (take_op j w) = handlerCalls w"
  "postedRequests (take_op j w) = postedRequests w"
  "reqId (take_op j w) = reqId w"
  "packetStream (take_op j w) = packetStream w"
  "eventListeners (take_op j w) = eventListeners w"
  "listenerCalls (take_op j w) = listenerCalls w"
  by (simp_all add: take_op_def split: prod.split)

lemma set_state_simps [simp]:
  "state (set_state g w) = fst (g (state w, ioContext w))"
  "ioContext (set_state g w) = snd (g (state w, ioContext w))"
  "inFlightRequests (set_state g w) = inFlightRequests w"
  "handlerCalls (set_state g w) = handlerCalls w"
  "postedRequests (set_state g w) = postedRequests w"
  "reqId (set_state g w) = reqId w"
  "packetStream (set_state g w) = packetStream w"
  "eventListeners (set_state g w) = eventListeners w"
  "listenerCalls (set_state g w) = listenerCalls w"
  by (simp_all add: set_state_def split: prod.split)

lemma to_inited_simps [simp]:
  "state (to_inited ev msg w) = (state w)\<lparr>st_val := Inited\<rparr>"
  "ioContext (to_inited ev msg w) = drop_heartbeat_timers (ioContext w)"
  "inFlightRequests (to_inited ev msg w) = inFlightRequests w"
  "handlerCalls (to_inited ev msg w) = handlerCalls w"
  "postedRequests (to_inited ev msg w) = postedRequests w"
  "reqId (to_inited ev msg w) = reqId w"
  "packetStream (to_inited ev msg w) = packetStream w"
  "eventListeners (to_inited ev msg w) = eventListeners w"
  "listenerCalls (to_inited ev msg w) = listenerCalls w @ EventListeners_Broadcast (eventListeners w) ev msg"
  by (simp_all add: to_inited_def broadcast_def set_state_def SetInited_def split: prod.split)

lemma send_packet_simps [simp]:
  "state (send_packet p h w) = state w"
  "inFlightRequests (send_packet p h w) = inFlightRequests w"
  "handlerCalls (send_packet p h w) = handlerCalls w"
  "postedRequests (send_packet p h w) = postedRequests w"
  "reqId (send_packet p h w) = reqId w"
  "eventListeners (send_packet p h w) = eventListeners w"
  "listenerCalls (send_packet p h w) = listenerCalls w"
  by (simp_all add: send_packet_def start_ops_def split: prod.split)

lemma workerThreadId_simps [simp]:
  "workerThreadId (start_ops ops w) = workerThreadId w"
  "workerThreadId (call_handler cb status d w) = workerThreadId w"
  "workerThreadId (broadcast ev msg w) = workerThreadId w"
  "workerThreadId (disconnect w) = workerThreadId w"
  "workerThreadId (erase_request i w) = workerThreadId w"
  "workerThreadId (update_stream g w) = workerThreadId w"
  "workerThreadId (take_op j w) = workerThreadId w"
  "workerThreadId (set_state f w) = workerThreadId w"
  "workerThreadId (to_inited ev msg w) = workerThreadId w"
  "workerThreadId (send_packet p h w) = workerThreadId w"
  by (simp_all add: start_ops_def call_handler_def broadcast_def disconnect_def erase_request_def
      update_stream_def take_op_def set_state_def to_inited_def send_packet_def split: prod.split)

lemma send_packet_queue:
  "ioContext (send_packet p h w) =
     (if length (packetSendQueue (packetStream w)) < kMaxQueuedPackets
      then ioContext w @ [PostedSendNext h] else ioContext w)"
  "packetStream (send_packet p h w) =
     (if length (packetSendQueue (packetStream w)) < kMaxQueuedPackets
      then (packetStream w)\<lparr>packetSendQueue := packetSendQueue (packetStream w) @ [p]\<rparr> else packetStream w)"
  by (simp_all add: send_packet_def SendPacket_def start_ops_def)

lemma set_mutex_effects:
  "\<not> st_mutex (state w) \<Longrightarrow> set_mutex False w = w"
  "set_mutex m (set_mutex m' w) = set_mutex m w"
  "set_mutex m (disconnect w) = disconnect (set_mutex m w)"
  "set_mutex m (to_inited ev msg w) = to_inited ev msg (set_mutex m w)"
  by (simp_all add: set_mutex_def disconnect_def to_inited_def broadcast_def set_state_def SetInited_def)

lemma IsConnected_set_mutex [simp]: "IsConnected (state (set_mutex m w)) = IsConnected (state w)"
  by (simp add: set_mutex_def IsConnected_def)

lemma HandshakeFailed_eq:
  assumes "\<not> st_mutex (state w)"
  shows "HandshakeFailed E ec w = Inr (to_inited EvConnectionFailed (ec_message (e_boost_message E) ec) w)"
  using assms
  by (simp add: HandshakeFailed_def with_state_lock_def to_inited_def [symmetric] set_mutex_effects)

lemma ConnectionError_eq:
  assumes "\<not> st_mutex (state w)"
  shows "Connection_ConnectionError E ec w =
     Inr (if IsConnected (state w)
          then disconnect (to_inited EvConnectionError (ec_message (e_boost_message E) ec) w) else w)"
  using assms
  by (simp add: Connection_ConnectionError_def with_state_lock_def to_inited_def [symmetric]
      set_mutex_effects)

lemma KickedFromServer_eq:
  assumes "\<not> st_mutex (state w)"
  shows "KickedFromServer w =
     Inr (if IsConnected (state w)
          then disconnect (to_inited EvKicked ''Kicked from server'' w) else w)"
  using assms
  by (simp add: KickedFromServer_def with_state_lock_def to_inited_def [symmetric] set_mutex_effects)

definition to_connected ::
  "('z, 'v) env \<Rightarrow> int \<Rightarrow> string \<Rightarrow> (string, i32) umap \<Rightarrow> ('l, 'cb) connection \<Rightarrow> ('l, 'cb) connection result"
where
  "to_connected E interval ser routes w =
     bindR (SetConnected (e_order E) (clock w) interval ser routes (state w) (ioContext w)) (\<lambda>(st, ops).
       Inr (broadcast EvConnected ''Connection successful'' (w\<lparr>state := st, ioContext := ops\<rparr>)))"

lemma StartReceivingPackets_eq:
  assumes "\<not> st_mutex (state w)"
  shows "StartReceivingPackets E interval ser routes w =
     bindR (to_connected E interval ser routes w) (receive_packets PacketsReceived)"
proof -
  obtain v where "state w = \<lparr>st_mutex = False, st_val = v\<rparr>"
    using assms by (cases "state w") simp
  then show ?thesis
    by (cases w) (simp add: StartReceivingPackets_def with_state_lock_def to_connected_def
        SetConnected_def set_mutex_def broadcast_def)
qed

lemma to_connected_Inr:
  "to_connected E interval ser routes w = Inr w' \<longleftrightarrow>
     in_int64 (interval * kHeartbeatFactor)
     \<and> w' = broadcast EvConnected ''Connection successful''
         (w\<lparr>state := (state w)\<lparr>st_val := Connected (new_connected (e_order E) interval
              (interval * kHeartbeatFactor) ser routes (ExpiresAfter interval)
              (ExpiresAt (clock w + interval * kHeartbeatFactor)))\<rparr>,
            ioContext := drop_heartbeat_timers (ioContext w)
              @ [PendingWait HeartbeatTimer False, PendingWait HeartbeatTimeoutTimer False]\<rparr>)"
  by (auto simp: to_connected_def SetConnected_def)

lemma to_connected_same:
  assumes "to_connected E interval ser routes w = Inr w'"
  shows "st_mutex (state w') = st_mutex (state w)" and "postedRequests w' = postedRequests w"
    and "reqId w' = reqId w" and "packetStream w' = packetStream w"
    and "inFlightRequests w' = inFlightRequests w" and "handlerCalls w' = handlerCalls w"
    and "eventListeners w' = eventListeners w"
  using assms by (auto simp: to_connected_Inr)

lemma receive_packets_Inr:
  "receive_packets h w = Inr w' \<longleftrightarrow>
     readBuffer (packetStream w) \<noteq> []
     \<and> w' = start_ops [PendingReceive (readBufferHead (packetStream w))
              (size_t_minus (length (readBuffer (packetStream w))) (readBufferHead (packetStream w))) h] w"
  by (auto simp: receive_packets_def ReceivePackets_def ReadToBuffer_def)

section \<open>Invariants of the connection\<close>

text \<open>
  The contract an invariant of the connection has to meet: one law per effect of the handlers. \<open>H q c\<close>
  is what holds when operation \<open>q\<close> has been taken off the list to be completed by \<open>c\<close>. \<open>I False\<close> is
  the invariant between steps; \<open>I True\<close> is the invariant at a moment where, besides, no operation is
  pending that leads to the next receive, so that one may be started: exactly one chain of operations
  (connect, handshake, receive, handshake ack, receive, \<open>\<dots>\<close>) reads from the socket. An invariant
  that does not need this ignores the flag. The laws give that every allowed step keeps the invariant.
\<close>

fun reads_on :: "'cb send_handler \<Rightarrow> bool" where
  "reads_on HandshakeSent = True"
| "reads_on (HandshakeAckSent _ _ _) = True"
| "reads_on _ = False"

fun reader_op :: "'cb op \<Rightarrow> bool" where
  "reader_op (PendingConnect _ _) = True"
| "reader_op (PendingReceive _ _ _) = True"
| "reader_op (PostedSendNext h) = reads_on h"
| "reader_op (PendingSend _ _ h) = reads_on h"
| "reader_op _ = False"

text \<open>Operations whose closure may return without a further effect.\<close>

fun droppable :: "'cb op \<Rightarrow> bool" where
  "droppable (PostedRequest _ _ _ _) = False"
| "droppable (PostedSendNext _) = False"
| "droppable (PendingSend _ _ (RequestSent _ _ _)) = False"
| "droppable (PendingReceive _ _ _) = False"
| "droppable (PendingWait HeartbeatTimer _) = False"
| "droppable (PendingWait (RequestTimer _) _) = False"
| "droppable _ = True"

inductive handshake_packet :: "Packet \<Rightarrow> 'cb send_handler \<Rightarrow> bool" where
  "handshake_packet (NewHandshake handshake_json) HandshakeSent"
| "handshake_packet NewHandshakeAck (HandshakeAckSent interval ser routes)"

locale connection_invariant =
  fixes E :: "('z, 'v) env"
    and may :: "('l, 'cb) event \<Rightarrow> ('l, 'cb) connection \<Rightarrow> bool"
    and I :: "bool \<Rightarrow> ('l, 'cb) connection \<Rightarrow> bool"
    and H :: "'cb op \<Rightarrow> completion \<Rightarrow> ('l, 'cb) connection \<Rightarrow> bool"
  assumes unlocked: "I k w \<Longrightarrow> \<not> st_mutex (state w)"
    and not_started: "I True w \<Longrightarrow> I False w"
    and taken: "I False w \<Longrightarrow> may (Completion i c now) w \<Longrightarrow> i < length (ioContext w) \<Longrightarrow>
      complete E (ioContext w ! i) c ((take_op i w)\<lparr>clock := now\<rparr>) \<noteq> None \<Longrightarrow>
      H (ioContext w ! i) c ((take_op i w)\<lparr>clock := now\<rparr>)"
    and dropped: "H q c w \<Longrightarrow> droppable q \<Longrightarrow> I (reader_op q) w"
    and user_start: "I False w \<Longrightarrow> may (UserStart tid a) w \<Longrightarrow>
      I False (start_ops [PendingConnect host port] w)"
    and user_request: "I False w \<Longrightarrow> may (UserRequest r d t cb) w \<Longrightarrow> I False (PostRequest r d t cb w)"
    and user_listener: "I False w \<Longrightarrow> may (UserAddListener l) w \<Longrightarrow>
      I False (w\<lparr>eventListeners := EventListeners_Add l (eventListeners w)\<rparr>)"
    and left: "I k w \<Longrightarrow>
      ev = EvConnectionFailed \<or> IsConnected (state w) \<and> ev \<in> {EvConnectionError, EvKicked} \<Longrightarrow>
      I k (to_inited ev msg w)"
    and disconnected: "I k w \<Longrightarrow> I k (disconnect w)"
    and entered: "H (PendingSend bid buf (HandshakeAckSent interval ser routes)) (SendDone ec n) w \<Longrightarrow>
      \<not> ec_failed ec \<Longrightarrow> to_connected E interval ser routes w = Inr w' \<Longrightarrow> I True w'"
    and extended: "I k w \<Longrightarrow> I k (set_state (\<lambda>(st, ops). ExtendHeartbeatTimeout now st ops) w)"
    and ticked: "H (PendingWait HeartbeatTimer sp) (WaitDone ec) w \<Longrightarrow>
      \<not> ec_failed ec \<Longrightarrow> IsConnected (state w) \<Longrightarrow>
      I False (set_state (\<lambda>(st, ops). rearm_heartbeat st ops) (send_packet NewHeartbeat HeartbeatSent w))"
    and tick_ignored: "H (PendingWait HeartbeatTimer sp) (WaitDone ec) w \<Longrightarrow>
      ec_failed ec \<or> \<not> IsConnected (state w) \<Longrightarrow> I False w"
    and handshake_sent: "I True w \<Longrightarrow> handshake_packet pkt h \<Longrightarrow> I False (send_packet pkt h w)"
    and receiving: "I True w \<Longrightarrow> receive_packets rh w = Inr w' \<Longrightarrow> I False w'"
    and received: "H (PendingReceive off n rh) (ReceiveDone ec chunk) w \<Longrightarrow>
      OnReceiveComplete (e_build E) rh off ec chunk (packetStream w) = Inr (s, del, ops) \<Longrightarrow>
      I (del \<noteq> None) (start_ops ops (w\<lparr>packetStream := s\<rparr>))"
    and released: "I k w \<Longrightarrow>
      I k (update_stream (\<lambda>s. s\<lparr>writeBuffers := um_erase bid (writeBuffers s)\<rparr>) w)"
    and send_started: "H (PostedSendNext h) Run w \<Longrightarrow>
      SendNextPacket (e_build E) h (packetStream w) = Inr (s, ops) \<Longrightarrow>
      I False (start_ops ops (w\<lparr>packetStream := s\<rparr>))"
    and request_refused: "H (PostedRequest r d t cb) Run w \<Longrightarrow> st_val (state w) = Inited \<Longrightarrow>
      I False (call_handler cb NotConnectedError [] w)"
    and request_queued: "H (PostedRequest r d t cb) Run w \<Longrightarrow> st_val (state w) = Connected con \<Longrightarrow>
      NewData (NewRequest (reqId w) r d) (routeToCode con) = Inr pkt \<Longrightarrow>
      I False (send_packet pkt (RequestSent t (NewRequest (reqId w) r d) cb) (w\<lparr>reqId := reqId w + 1\<rparr>))"
    and request_failed: "H (PendingSend bid buf (RequestSent t m cb)) c w \<Longrightarrow>
      I False (call_handler cb InternalError [] w)"
    and request_in_flight: "H (PendingSend bid buf (RequestSent t m cb)) c w \<Longrightarrow>
      (e_build E = Debug \<Longrightarrow> um_find (inFlightRequests w) (m_id m) = None) \<Longrightarrow>
      I False (start_ops [PendingWait (RequestTimer (m_id m)) (um_find (inFlightRequests w) (m_id m) \<noteq> None)]
           (w\<lparr>inFlightRequests := um_insert (m_id m) (new_Request cb t) (inFlightRequests w)\<rparr>))"
    and request_done: "I k w \<Longrightarrow> IsConnected (state w) \<Longrightarrow>
      um_find (inFlightRequests w) rid = Some req \<Longrightarrow> status \<in> {Ok, ServerError} \<Longrightarrow>
      I k (erase_request rid (call_handler (r_handler req) status d w))"
    and request_timed_out: "H (PendingWait (RequestTimer rid) sp) (WaitDone ec) w \<Longrightarrow> \<not> ec_failed ec \<Longrightarrow>
      um_find (inFlightRequests w) rid = Some req \<Longrightarrow>
      I False (erase_request rid (call_handler (r_handler req) Timeout [] w))"
    and request_timer_ignored: "H (PendingWait (RequestTimer rid) sp) (WaitDone ec) w \<Longrightarrow>
      ec_failed ec \<or> um_find (inFlightRequests w) rid = None \<Longrightarrow> I False w"
begin

lemmas handshake_sends =
  handshake_sent [OF _ handshake_packet.intros(1)]
  handshake_sent [OF _ handshake_packet.intros(2)]

lemma weaken: "I k w \<Longrightarrow> I False w"
  using not_started by (cases k) auto

lemma HandshakeFailed_inv: "I k w \<Longrightarrow> HandshakeFailed E ec w = Inr w' \<Longrightarrow> I k w'"
  using left [of k w EvConnectionFailed] unlocked [of k w] by (auto simp: HandshakeFailed_eq)

lemma ConnectionError_inv: "I k w \<Longrightarrow> Connection_ConnectionError E ec w = Inr w' \<Longrightarrow> I k w'"
  using disconnected [OF left [of k w EvConnectionError]] unlocked [of k w]
  by (auto simp: ConnectionError_eq split: if_splits)

lemma KickedFromServer_inv: "I k w \<Longrightarrow> KickedFromServer w = Inr w' \<Longrightarrow> I k w'"
  using disconnected [OF left [of k w EvKicked]] unlocked [of k w]
  by (auto simp: KickedFromServer_eq split: if_splits)

lemmas failures_inv = HandshakeFailed_inv ConnectionError_inv KickedFromServer_inv

lemma ProcessMessage_inv: "I k w \<Longrightarrow> IsConnected (state w) \<Longrightarrow> I k (ProcessMessage msg w)"
  using request_done [of k w "m_id msg"]
  by (auto simp: ProcessMessage_def split: MessageType.split option.split)

lemma ProcessPacket_inv: "I k w \<Longrightarrow> ProcessPacket E p w = Inr w' \<Longrightarrow> I k w'"
  by (auto simp: ProcessPacket_def bindR_eq_Inr
      split: PacketType.splits StateType.splits option.splits
      intro: extended ProcessMessage_inv [OF _ Connected_IsConnected] failures_inv)

lemma ProcessPackets_inv: "I k w \<Longrightarrow> foldR (ProcessPacket E) ps w = Inr w' \<Longrightarrow> I k w'"
  by (induction ps arbitrary: w) (auto simp: bindR_eq_Inr intro: ProcessPacket_inv)

lemma OnPacketsReceived_inv: "I True w \<Longrightarrow> OnPacketsReceived E ec ps w = Inr w' \<Longrightarrow> I False w'"
  by (auto simp: OnPacketsReceived_def bindR_eq_Inr split: if_splits
      intro: not_started receiving ProcessPackets_inv ConnectionError_inv)

lemma SendHandshakeAck_inv: "I True w \<Longrightarrow> SendHandshakeAck E resp w = Inr w' \<Longrightarrow> I False w'"
  by (auto simp: SendHandshakeAck_def bindR_eq_Inr split: option.splits prod.splits
      intro: handshake_sends not_started ConnectionError_inv)

lemma OnHandshakeResponse_inv: "I True w \<Longrightarrow> OnHandshakeResponse E ec ps w = Inr w' \<Longrightarrow> I False w'"
  by (auto simp: OnHandshakeResponse_def bindR_eq_Inr split: if_splits list.splits option.splits
      dest: SendHandshakeAck_inv HandshakeFailed_inv intro: not_started)
    (blast intro: SendHandshakeAck_inv not_started ConnectionError_inv)+

lemma run_receive_handler_inv: "I True w \<Longrightarrow> run_receive_handler E rh ec ps w = Inr w' \<Longrightarrow> I False w'"
  by (cases rh) (auto simp: run_receive_handler_def intro: OnHandshakeResponse_inv OnPacketsReceived_inv)

lemma OnConnect_inv: "I True w \<Longrightarrow> OnConnect E tid ec w = Inr w' \<Longrightarrow> I False w'"
  by (auto simp: OnConnect_def SendHandshake_def bindR_eq_Inr split: if_splits
      intro: handshake_sends not_started HandshakeFailed_inv)

lemma HandshakeSent_inv:
  assumes "H (PendingSend bid buf HandshakeSent) c w" and "run_send_handler E HandshakeSent ec w = Inr w'"
  shows "I False w'"
  using assms(2) dropped [OF assms(1)]
  by (auto simp: run_send_handler_def OnHandshakeSent_def ReceiveHandshakeResponse_def bindR_eq_Inr
      split: if_splits intro: receiving not_started HandshakeFailed_inv)

lemma HandshakeAckSent_inv:
  assumes "H (PendingSend bid buf (HandshakeAckSent interval ser routes)) (SendDone ec n) w"
    and "run_send_handler E (HandshakeAckSent interval ser routes) ec' w = Inr w'"
    and "ec_failed ec' = ec_failed ec"
  shows "I False w'"
proof -
  have I: "I True w" using dropped [OF assms(1)] by simp
  show ?thesis
    using assms(2,3) I unlocked [OF I]
    by (auto simp: run_send_handler_def OnHandshakeAckSent_def StartReceivingPackets_eq bindR_eq_Inr
        split: if_splits intro: receiving not_started entered [OF assms(1)])
qed

lemma HeartbeatSent_inv:
  assumes "H (PendingSend bid buf HeartbeatSent) c w" and "run_send_handler E HeartbeatSent ec w = Inr w'"
  shows "I False w'"
  using assms(2) dropped [OF assms(1)]
  by (auto simp: run_send_handler_def OnHeartbeatSent_def split: if_splits intro: ConnectionError_inv)

lemma RequestSent_inv:
  assumes "H (PendingSend bid buf (RequestSent t m cb)) c w"
    and "run_send_handler E (RequestSent t m cb) ec w = Inr w'"
  shows "I False w'"
  using assms request_failed [OF assms(1)] request_in_flight [OF assms(1)]
  by (auto simp: run_send_handler_def OnRequestSent_def Let_def bindR_eq_Inr cassert_eq_Inr
      split: if_splits)

lemma run_send_handler_inv:
  "H (PendingSend bid buf h) (SendDone ec n) w \<Longrightarrow> run_send_handler E h ec' w = Inr w' \<Longrightarrow>
   ec_failed ec' = ec_failed ec \<Longrightarrow> I False w'"
  by (cases h) (blast intro: HandshakeSent_inv HandshakeAckSent_inv HeartbeatSent_inv RequestSent_inv)+

lemma OnHeartbeatTimer_inv:
  assumes "H (PendingWait HeartbeatTimer sp) (WaitDone ec) w" and "OnHeartbeatTimer ec w = Inr w'"
  shows "I False w'"
  using assms(2) ticked [OF assms(1)] tick_ignored [OF assms(1)]
  by (auto simp: OnHeartbeatTimer_def HeartbeatTick_def heartbeatTick_def split: if_splits)

lemma OnHeartbeatTimeout_inv:
  "I k w \<Longrightarrow> OnHeartbeatTimeout E ec w = Inr w' \<Longrightarrow> I k w'"
  by (auto simp: OnHeartbeatTimeout_def split: if_splits intro: ConnectionError_inv)

lemma OnRequestTimer_inv:
  assumes "H (PendingWait (RequestTimer i) sp) (WaitDone ec) w"
  shows "I False (OnRequestTimer i ec w)"
  using request_timed_out [OF assms] request_timer_ignored [OF assms]
  by (auto simp: OnRequestTimer_def ProcessRequestTimeout_def split: option.split)

lemma RunPostedRequest_inv:
  assumes "H (PostedRequest r d t cb) Run w" and "RunPostedRequest E tid r d t cb w = Inr w'"
  shows "I False w'"
  using assms(2) request_refused [OF assms(1)] request_queued [OF assms(1)]
  by (auto simp: RunPostedRequest_def Let_def bindR_eq_Inr split: StateType.splits)

lemma OnSendComplete_inv:
  assumes "H (PendingSend bid buf h) (SendDone ec n) w"
    and "OnSendComplete update_stream (run_send_handler E h) bid ec n w = Inr w'"
  shows "I False w'"
  using assms(2) run_send_handler_inv [OF assms(1)] released
  by (auto simp: OnSendComplete_def bindR_eq_Inr split: if_splits)

lemma receive_complete_inv:
  assumes "H (PendingReceive off n rh) (ReceiveDone ec chunk) w"
    and "complete E (PendingReceive off n rh) (ReceiveDone ec chunk) w = Some (Inr w')"
  shows "I False w'"
proof -
  from assms(2) obtain s del ops where
    r: "OnReceiveComplete (e_build E) rh off ec chunk (packetStream w) = Inr (s, del, ops)"
    and w': "case del of None \<Rightarrow> w' = start_ops ops (w\<lparr>packetStream := s\<rparr>)
       | Some (ec', ps) \<Rightarrow> run_receive_handler E rh ec' ps (start_ops ops (w\<lparr>packetStream := s\<rparr>)) = Inr w'"
    by (auto simp: bindR_eq_Inr Let_def split: option.splits)
  show ?thesis
    using received [OF assms(1) r] w' by (auto split: option.splits intro: run_receive_handler_inv)
qed

lemma wait_inv:
  assumes "H (PendingWait t sp) (WaitDone ec) w"
    and "complete E (PendingWait t sp) (WaitDone ec) w = Some (Inr w')"
  shows "I False w'"
proof (cases t)
  case HeartbeatTimer
  with assms show ?thesis by (auto intro: OnHeartbeatTimer_inv)
next
  case HeartbeatTimeoutTimer
  with assms dropped [OF assms(1)] show ?thesis by (auto intro: OnHeartbeatTimeout_inv)
next
  case (RequestTimer i)
  with assms show ?thesis by (auto intro: OnRequestTimer_inv)
qed

lemma complete_inv:
  assumes "H p c w" and "complete E p c w = Some (Inr w')"
  shows "I False w'"
proof (cases p)
  case (PostedRequest r d t cb)
  with assms RunPostedRequest_inv show ?thesis by (cases c) auto
next
  case (PostedSendNext h)
  with assms send_started [of h w] show ?thesis
    by (cases c) (auto simp: bindR_eq_Inr)
next
  case (PendingConnect host port)
  with dropped [OF assms(1)] have "I True w" by simp
  with assms(2) PendingConnect OnConnect_inv show ?thesis by (cases c) auto
next
  case (PendingSend bid buf h)
  with assms OnSendComplete_inv show ?thesis by (cases c) auto
next
  case (PendingReceive off n rh)
  with assms receive_complete_inv show ?thesis by (cases c) (simp_all del: complete.simps(5))
next
  case (PendingWait t sp)
  show ?thesis
  proof (cases c)
    case (WaitDone ec)
    with assms PendingWait wait_inv show ?thesis by blast
  qed (use assms(2) PendingWait in \<open>cases t; simp\<close>)+
qed

lemma Start_inv: "I False w \<Longrightarrow> may (UserStart tid a) w \<Longrightarrow> Start E tid a w = Inr w' \<Longrightarrow> I False w'"
  by (auto simp: Start_def TcpPacketStream_Connect_def bindR_eq_Inr split: option.splits sum.splits
      intro: user_start)

lemma exec_inv:
  assumes "I False w" and "may ev w" and "exec E ev w = Inr w'"
  shows "I False w'"
proof (cases ev)
  case (UserStart tid a)
  with assms Start_inv show ?thesis by (auto split: sum.splits fault.splits)
next
  case (UserRequest r d t cb)
  with assms user_request show ?thesis by auto
next
  case (UserAddListener l)
  with assms user_listener show ?thesis by (auto simp: AddEventListener_def split: if_splits)
next
  case (Completion i c now)
  show ?thesis
  proof (cases "i < length (ioContext w) \<and> complete E (ioContext w ! i) c ((take_op i w)\<lparr>clock := now\<rparr>) \<noteq> None")
    case True
    with assms(1,2) Completion have "H (ioContext w ! i) c ((take_op i w)\<lparr>clock := now\<rparr>)"
      by (auto intro: taken)
    with True assms(3) Completion complete_inv show ?thesis by auto
  next
    case False
    with assms Completion show ?thesis by (auto split: if_splits)
  qed
qed

end

sublocale connection_invariant \<subseteq> machine "exec E" may "I False"
  by unfold_locales (rule exec_inv)

end
