(* ===== verification/Connection_Example.thy ===== *)
theory Connection_Example
  imports Connection
begin

text \<open>
  A concrete environment and a concrete run, for the examples: a debug build, a toy zlib, a toy JSON
  library that knows one document, and a resolver that finds every host. The run registers a listener,
  connects, goes through the handshake and sends one request.
\<close>

text \<open>
  The document stands for an object with a member \<^verbatim>\<open>sys\<close> that has a heartbeat interval of 30
  seconds and a dictionary with the route \<^verbatim>\<open>r\<close> under code 9. Its text is \<^verbatim>\<open>{}\<close>.
\<close>

definition sample_json :: "nat rapidjson" where
  "sample_json =
     \<lparr>j_Parse = (\<lambda>s. if s = ''{}'' then Some 0 else None), j_IsObject = (\<lambda>v. v \<in> {0, 1, 3}),
      j_Member = (\<lambda>v k. if v = 0 \<and> k = ''sys'' then Some 1
         else if v = 1 \<and> k = ''heartbeat'' then Some 2
         else if v = 1 \<and> k = ''dict'' then Some 3 else None),
      j_Members = (\<lambda>v. if v = 3 then [(4, 5)] else []),
      j_IsUint64 = (\<lambda>v. v = 2), j_GetUint64 = (\<lambda>v. 30),
      j_IsInt = (\<lambda>v. v = 5), j_GetInt = (\<lambda>v. 9),
      j_IsString = (\<lambda>v. v = 4), j_GetString = (\<lambda>v. ''r'')\<rparr>"

definition sample_env :: "(bytes, nat) env" where
  "sample_env =
     \<lparr>e_build = Debug, e_zlib = tripling_zlib, e_json = sample_json,
      e_boost_message = (\<lambda>c v. ''boost''), e_resolve = (\<lambda>h p. Inr ()),
      e_order = (\<lambda>m. m), e_worker = 0\<rparr>"

definition handshake_run :: "(nat, nat) event list" where
  "handshake_run =
     [UserAddListener 1, UserStart 7 ''h:1'', Completion 0 (ConnectDone ec_success) 0, Completion 0 Run 0,
      Completion 0 (SendDone ec_success 6) 0,
      Completion 0 (ReceiveDone ec_success [1, 0, 0, 2, 123, 125]) 0,
      Completion 0 Run 0, Completion 0 (SendDone ec_success 4) 0]"

definition request_run :: "(nat, nat) event list" where
  "request_run =
     [UserRequest ''r'' [] 5 77, Completion 3 Run 0, Completion 3 Run 0,
      Completion 3 (SendDone ec_success 8) 0]"

definition run_state :: "(nat, nat) event list \<Rightarrow> (nat, nat) connection" where
  "run_state es =
     (case foldR (exec sample_env) es (new_Connection sample_env) of
        Inl _ \<Rightarrow> new_Connection sample_env | Inr w \<Rightarrow> w)"

lemma run_state_Inr:
  "\<not> isl (foldR (exec sample_env) es (new_Connection sample_env)) \<Longrightarrow>
   foldR (exec sample_env) es (new_Connection sample_env) = Inr (run_state es)"
  by (cases "foldR (exec sample_env) es (new_Connection sample_env)") (simp_all add: run_state_def)

lemma sample_run:
  "map_sum id (\<lambda>w. (ioContext w, inFlightRequests w, handlerCalls w, listenerCalls w,
       el_listeners (eventListeners w), state w))
     (foldR (exec sample_env) (handshake_run @ request_run) (new_Connection sample_env)) =
   Inr ([PendingWait HeartbeatTimer False, PendingWait HeartbeatTimeoutTimer False,
         PendingReceive 0 2048 PacketsReceived, PendingWait (RequestTimer 1) False], [(1, new_Request 77 5)], [],
        [(1, EvConnected, ''Connection successful'')], [1],
        \<lparr>st_mutex = False,
         st_val = Connected (new_connected (\<lambda>m. m) 30 90 ''json'' [(''r'', 9)] (ExpiresAfter 30) (ExpiresAt 90))\<rparr>)"
  by code_simp

lemma sample_run_ends:
  "foldR (exec sample_env) (handshake_run @ request_run) (new_Connection sample_env) =
     Inr (run_state (handshake_run @ request_run))"
  using sample_run
  by (cases "foldR (exec sample_env) (handshake_run @ request_run) (new_Connection sample_env)")
    (simp_all add: run_state_def)

lemma sample_run_state:
  "ioContext (run_state (handshake_run @ request_run)) =
     [PendingWait HeartbeatTimer False, PendingWait HeartbeatTimeoutTimer False,
      PendingReceive 0 2048 PacketsReceived, PendingWait (RequestTimer 1) False]"
  "inFlightRequests (run_state (handshake_run @ request_run)) = [(1, new_Request 77 5)]"
  "handlerCalls (run_state (handshake_run @ request_run)) = []"
  "listenerCalls (run_state (handshake_run @ request_run)) = [(1, EvConnected, ''Connection successful'')]"
  "el_listeners (eventListeners (run_state (handshake_run @ request_run))) = [1]"
  "state (run_state (handshake_run @ request_run)) =
     \<lparr>st_mutex = False,
      st_val = Connected (new_connected (\<lambda>m. m) 30 90 ''json'' [(''r'', 9)] (ExpiresAfter 30) (ExpiresAt 90))\<rparr>"
  using sample_run by (simp_all add: sample_run_ends)

end
