(* ===== verification/Connection_Requests.thy ===== *)
theory Connection_Requests
  imports Connection_Example
begin

text \<open>
  Requests through their life: posted, queued, written, in flight, answered or timed out. Three
  invariants of the connection, each an interpretation of the contract \<open>connection_invariant\<close>: no
  handler is called more often than requests were posted with it (any environment); no request is
  lost and no two have the same number (while the send queue has room and the counter has not come
  round); every request in flight has a live timer.
\<close>

lemma sum_list_take_drop:
  fixes f :: "'a \<Rightarrow> 'b::comm_monoid_add"
  assumes "i < length xs"
  shows "sum_list (map f xs) = f (xs ! i) + sum_list (map f (take i xs @ drop (Suc i) xs))"
  using at_index [OF assms, of "\<lambda>xs. sum_list (map f xs)"] by (simp add: add.left_commute)

section \<open>Where a request is\<close>

text \<open>The handlers that an operation holds, and the numbers of the requests that hold one.\<close>

fun op_handlers :: "'cb op \<Rightarrow> 'cb multiset" where
  "op_handlers (PostedRequest _ _ _ cb) = {#cb#}"
| "op_handlers (PostedSendNext (RequestSent _ _ cb)) = {#cb#}"
| "op_handlers (PendingSend _ _ (RequestSent _ _ cb)) = {#cb#}"
| "op_handlers _ = {#}"

fun op_ids :: "'cb op \<Rightarrow> u64 multiset" where
  "op_ids (PostedSendNext (RequestSent _ m _)) = {#m_id m#}"
| "op_ids (PendingSend _ _ (RequestSent _ m _)) = {#m_id m#}"
| "op_ids _ = {#}"

fun op_waiting :: "'cb op \<Rightarrow> nat" where
  "op_waiting (PostedRequest _ _ _ _) = 1"
| "op_waiting _ = 0"

definition ops_sum :: "('cb op \<Rightarrow> 'm::comm_monoid_add) \<Rightarrow> 'cb op list \<Rightarrow> 'm" where
  "ops_sum f ops = sum_list (map f ops)"

lemma ops_sum_simps [simp]:
  "ops_sum f [] = 0"
  "ops_sum f (p # ops) = f p + ops_sum f ops"
  "ops_sum f (ops @ ops') = ops_sum f ops + ops_sum f ops'"
  by (simp_all add: ops_sum_def)

lemma ops_sum_zero: "\<forall>p \<in> set ops. f p = 0 \<Longrightarrow> ops_sum f ops = 0"
  by (induction ops) simp_all

lemma ops_sum_supersede:
  "(\<And>p. f (supersede_op t p) = f p) \<Longrightarrow> ops_sum f (supersede t ops) = ops_sum f ops"
  by (induction ops) simp_all

lemma ops_sum_take_op:
  "i < length (ioContext w) \<Longrightarrow>
   ops_sum f (ioContext w) = f (ioContext w ! i) + ops_sum f (ioContext (take_op i w))"
  using sum_list_take_drop [of i "ioContext w" f] by (simp add: ops_sum_def take_op_def)

lemma supersede_counts [simp]:
  "op_handlers (supersede_op t p) = op_handlers p"
  "op_ids (supersede_op t p) = op_ids p"
  "op_waiting (supersede_op t p) = op_waiting p"
  by (cases p; simp)+

lemma ops_sum_supersede_counts [simp]:
  "ops_sum op_handlers (supersede t ops) = ops_sum op_handlers ops"
  "ops_sum op_ids (supersede t ops) = ops_sum op_ids ops"
  "ops_sum op_waiting (supersede t ops) = ops_sum op_waiting ops"
  by (simp_all add: ops_sum_supersede)

definition accounted :: "('l, 'cb) connection \<Rightarrow> 'cb multiset" where
  "accounted w = ops_sum op_handlers (ioContext w) + image_mset r_handler (image_mset snd (mset (inFlightRequests w)))
     + image_mset fst (mset (handlerCalls w))"

definition request_ids :: "('l, 'cb) connection \<Rightarrow> u64 multiset" where
  "request_ids w = ops_sum op_ids (ioContext w) + image_mset fst (mset (inFlightRequests w))"

lemma in_flight_insert:
  "image_mset snd (mset (um_insert k v m)) =
     (if um_find m k = None then add_mset v (image_mset snd (mset m)) else image_mset snd (mset m))"
  "image_mset fst (mset (um_insert k v m)) =
     (if um_find m k = None then add_mset k (image_mset fst (mset m)) else image_mset fst (mset m))"
  by (auto simp: um_insert_def um_find_def split: option.splits)

lemma in_flight_erase_le:
  "um_find m k = Some v \<Longrightarrow> add_mset v (image_mset snd (mset (um_erase k m))) \<subseteq># image_mset snd (mset m)"
proof (induction m)
  case (Cons x m)
  have le: "image_mset snd (mset (um_erase k m)) \<subseteq># image_mset snd (mset m)"
    by (simp add: um_erase_def AList.delete_eq mset_filter image_mset_subseteq_mono multiset_filter_subset)
  with Cons show ?case
    by (cases x) (auto simp: um_find_def um_erase_def add_mset_commute intro: subset_mset.order_trans)
qed (simp add: um_find_def)

lemma in_flight_erase:
  assumes "um_wf m" and "um_find m k = Some v"
  shows "image_mset snd (mset m) = add_mset v (image_mset snd (mset (um_erase k m)))"
    and "image_mset fst (mset m) = add_mset k (image_mset fst (mset (um_erase k m)))"
  using assms
proof (induction m)
  case (Cons x m)
  { case 1 with Cons show ?case
      by (cases x) (auto simp: um_find_def um_erase_def um_wf_def AList.delete_notin_dom AList.delete_id) }
  { case 2 with Cons show ?case
      by (cases x) (auto simp: um_find_def um_erase_def um_wf_def AList.delete_notin_dom AList.delete_id) }
qed (simp_all add: um_find_def)

section \<open>How the effects change the account\<close>

lemma ops_sum_drop_timers [simp]:
  "ops_sum op_handlers (drop_heartbeat_timers ops) = ops_sum op_handlers ops"
  "ops_sum op_ids (drop_heartbeat_timers ops) = ops_sum op_ids ops"
  "ops_sum op_waiting (drop_heartbeat_timers ops) = ops_sum op_waiting ops"
  by (simp_all add: drop_heartbeat_timers_def)

lemma ops_sum_state [simp]:
  assumes "\<And>t p. f (supersede_op t p) = f p" and "\<And>t sp. f (PendingWait t sp) = 0"
  shows "ops_sum f (snd (ExtendHeartbeatTimeout now st ops)) = ops_sum f ops"
    and "ops_sum f (snd (rearm_heartbeat st ops)) = ops_sum f ops"
  using assms
  by (simp_all add: ExtendHeartbeatTimeout_def rearm_heartbeat_def ops_sum_supersede split: StateType.split)

lemma ops_sum_received:
  assumes "\<And>off n rh. f (PendingReceive off n rh) = 0"
  shows "OnReceiveComplete b rh off ec chunk s = Inr (s', del, ops) \<Longrightarrow> ops_sum f ops = 0"
  using assms
  by (auto simp: OnReceiveComplete_def ReadToBuffer_def bindR_eq_Inr Let_def
      split: if_splits sum.splits fault.splits)

lemma ops_sum_send_started:
  assumes "SendNextPacket b h s = Inr (s', ops)" and "\<And>i buf. f (PendingSend i buf h) = f (PostedSendNext h)"
  shows "ops_sum f ops = f (PostedSendNext h)"
  using tcp_sender.send_next_law [OF assms(1)] assms(2) by auto

lemma op_counts_send [simp]:
  "op_handlers (PendingSend i buf h) = op_handlers (PostedSendNext h)"
  "op_ids (PendingSend i buf h) = op_ids (PostedSendNext h)"
  "op_waiting (PendingSend i buf h) = 0" "op_waiting (PostedSendNext h) = 0"
  by (cases h; simp)+

lemma op_counts_handshake:
  "handshake_packet p h \<Longrightarrow> op_handlers (PostedSendNext h) = {#}"
  "handshake_packet p h \<Longrightarrow> op_ids (PostedSendNext h) = {#}"
  by (auto elim: handshake_packet.cases)

lemma op_counts_droppable:
  "droppable q \<Longrightarrow> op_handlers q = {#}"
  "droppable q \<Longrightarrow> op_ids q = {#}"
  "droppable q \<Longrightarrow> op_waiting q = 0"
  by (cases q rule: droppable.cases; simp)+

lemma ops_sum_take [simp]:
  fixes f :: "'cb op \<Rightarrow> 'm::comm_monoid_add"
  assumes "i < length ops"
  shows "f (ops ! i) + (ops_sum f (take i ops) + ops_sum f (drop (Suc i) ops)) = ops_sum f ops"
  using sum_list_take_drop [OF assms, of f] by (simp add: ops_sum_def)

lemma ops_sum_take' [simp]:
  fixes f :: "'cb op \<Rightarrow> 'm::comm_monoid_add"
  assumes "i < length ops"
  shows "f (ops ! i) + (ops_sum f (take i ops) + ops_sum f (drop (Suc i) ops) + y) = ops_sum f ops + y"
    and "f (ops ! i) + (ops_sum f (take i ops) + (ops_sum f (drop (Suc i) ops) + y)) = ops_sum f ops + y"
  using ops_sum_take [OF assms, of f] by (simp_all add: add.assoc [symmetric])

lemma accounted_simps [simp]:
  "accounted (start_ops ops w) = ops_sum op_handlers ops + accounted w"
  "accounted (call_handler cb status d w) = add_mset cb (accounted w)"
  "accounted (disconnect w) = accounted w"
  "accounted (broadcast ev msg w) = accounted w"
  "accounted (update_stream g w) = accounted w"
  "accounted (to_inited ev msg w) = accounted w"
  "accounted (w\<lparr>packetStream := s\<rparr>) = accounted w"
  "accounted (w\<lparr>eventListeners := el\<rparr>) = accounted w"
  "accounted (w\<lparr>postedRequests := rs\<rparr>) = accounted w"
  "accounted (w\<lparr>reqId := n\<rparr>) = accounted w"
  "accounted (w\<lparr>clock := now\<rparr>) = accounted w"
  "accounted (set_state (\<lambda>(st, ops). ExtendHeartbeatTimeout now st ops) w) = accounted w"
  "accounted (set_state (\<lambda>(st, ops). rearm_heartbeat st ops) w) = accounted w"
  "accounted (send_packet p h w) =
     (if length (packetSendQueue (packetStream w)) < kMaxQueuedPackets
      then op_handlers (PostedSendNext h) + accounted w else accounted w)"
  by (simp_all add: accounted_def send_packet_queue)

lemma accounted_to_connected:
  "to_connected E interval ser routes w = Inr w' \<Longrightarrow> accounted w' = accounted w"
  by (auto simp: to_connected_Inr accounted_def)

lemma accounted_take_op [simp]:
  "i < length (ioContext w) \<Longrightarrow> op_handlers (ioContext w ! i) + accounted (take_op i w) = accounted w"
  by (simp add: accounted_def)

lemma request_ids_simps [simp]:
  "request_ids (start_ops ops w) = ops_sum op_ids ops + request_ids w"
  "request_ids (call_handler cb status d w) = request_ids w"
  "request_ids (disconnect w) = request_ids w"
  "request_ids (broadcast ev msg w) = request_ids w"
  "request_ids (update_stream g w) = request_ids w"
  "request_ids (to_inited ev msg w) = request_ids w"
  "request_ids (w\<lparr>packetStream := s\<rparr>) = request_ids w"
  "request_ids (w\<lparr>eventListeners := el\<rparr>) = request_ids w"
  "request_ids (w\<lparr>postedRequests := rs\<rparr>) = request_ids w"
  "request_ids (w\<lparr>reqId := n\<rparr>) = request_ids w"
  "request_ids (w\<lparr>clock := now\<rparr>) = request_ids w"
  "request_ids (set_state (\<lambda>(st, ops). ExtendHeartbeatTimeout now st ops) w) = request_ids w"
  "request_ids (set_state (\<lambda>(st, ops). rearm_heartbeat st ops) w) = request_ids w"
  "request_ids (send_packet p h w) =
     (if length (packetSendQueue (packetStream w)) < kMaxQueuedPackets
      then op_ids (PostedSendNext h) + request_ids w else request_ids w)"
  by (simp_all add: request_ids_def send_packet_queue)

lemma request_ids_to_connected:
  "to_connected E interval ser routes w = Inr w' \<Longrightarrow> request_ids w' = request_ids w"
  by (auto simp: to_connected_Inr request_ids_def)

lemma request_ids_take_op [simp]:
  "i < length (ioContext w) \<Longrightarrow> op_ids (ioContext w ! i) + request_ids (take_op i w) = request_ids w"
  by (simp add: request_ids_def)

lemma waiting_to_connected:
  "to_connected E interval ser routes w = Inr w' \<Longrightarrow>
   ops_sum op_waiting (ioContext w') = ops_sum op_waiting (ioContext w)"
  by (auto simp: to_connected_Inr)

lemmas account_laws = waiting_to_connected accounted_to_connected request_ids_to_connected to_connected_same receive_packets_Inr ops_sum_received
  ops_sum_send_started op_counts_handshake op_counts_droppable PostRequest_def

section \<open>No handler is called too often\<close>

definition within_account :: "bool \<Rightarrow> ('l, 'cb) connection \<Rightarrow> bool" where
  "within_account k w \<longleftrightarrow> \<not> st_mutex (state w) \<and> accounted w \<subseteq># mset (postedRequests w)"

definition within_account_taken :: "'cb op \<Rightarrow> completion \<Rightarrow> ('l, 'cb) connection \<Rightarrow> bool" where
  "within_account_taken q c w \<longleftrightarrow>
     \<not> st_mutex (state w) \<and> op_handlers q + accounted w \<subseteq># mset (postedRequests w)"

lemma add_mset_leD: "add_mset x A \<subseteq># B \<Longrightarrow> A \<subseteq># B"
  by (auto dest: mset_subset_eq_insertD)

lemma accounted_done_le:
  assumes "um_find (inFlightRequests w) i = Some req" and "accounted w \<subseteq># P"
  shows "accounted (erase_request i (call_handler (r_handler req) status d w)) \<subseteq># P"
proof -
  have "accounted (erase_request i (call_handler (r_handler req) status d w)) \<subseteq># accounted w"
    using image_mset_subseteq_mono [OF in_flight_erase_le [OF assms(1)], of r_handler]
    by (simp add: accounted_def)
  then show ?thesis using assms(2) by (rule subset_mset.order_trans)
qed

lemma in_flight_counts [simp]:
  "accounted (w\<lparr>inFlightRequests := um_insert i req (inFlightRequests w)\<rparr>) =
     (if um_find (inFlightRequests w) i = None then add_mset (r_handler req) (accounted w) else accounted w)"
  "request_ids (w\<lparr>inFlightRequests := um_insert i req (inFlightRequests w)\<rparr>) =
     (if um_find (inFlightRequests w) i = None then add_mset i (request_ids w) else request_ids w)"
  by (simp_all add: accounted_def request_ids_def in_flight_insert)

interpretation account: connection_invariant E "\<lambda>_ _. True" within_account within_account_taken
  for E :: "('z, 'v) env"
  by unfold_locales
    (auto simp: within_account_def within_account_taken_def account_laws
      elim: add_mset_leD intro: accounted_done_le)

section \<open>What has been posted\<close>

fun posted_by :: "('l, 'cb) event \<Rightarrow> 'cb list" where
  "posted_by (UserRequest _ _ _ cb) = [cb]"
| "posted_by _ = []"

text \<open>Nothing but a request of the application changes what has been posted.\<close>

interpretation unposted: connection_invariant E "\<lambda>ev _. posted_by ev = []"
    "\<lambda>_ w. \<not> st_mutex (state w) \<and> postedRequests w = P"
    "\<lambda>_ _ w. \<not> st_mutex (state w) \<and> postedRequests w = P"
  for E :: "('z, 'v) env" and P
  by unfold_locales (auto simp: account_laws)

lemma exec_posted:
  assumes "\<not> st_mutex (state w)" and "exec E ev w = Inr w'"
  shows "postedRequests w' = postedRequests w @ posted_by ev"
proof (cases "posted_by ev = []")
  case True
  with unposted.exec_inv [of w "postedRequests w" ev E w'] assms show ?thesis by simp
next
  case False
  then obtain r d t cb where "ev = UserRequest r d t cb" by (cases ev) auto
  with assms(2) show ?thesis by (auto simp: PostRequest_def)
qed

lemma run_posted:
  assumes "foldR (exec E) es w = Inr w'" and "within_account False w"
  shows "postedRequests w' = postedRequests w @ concat (map posted_by es)"
  using assms
proof (induction es arbitrary: w)
  case (Cons ev es)
  then obtain w1 where w1: "exec E ev w = Inr w1" "foldR (exec E) es w1 = Inr w'"
    by (auto simp: bindR_eq_Inr)
  have "within_account False w1"
    using account.exec_inv [OF Cons.prems(2) TrueI w1(1)] .
  with Cons.IH [OF w1(2)] exec_posted [OF _ w1(1)] Cons.prems(2) show ?case
    by (simp add: within_account_def)
qed simp

section \<open>No request is lost\<close>

text \<open>
  The numbers of the requests on their way are different and below the counter; the counter has not
  passed the number of requests posted. Between the two lies the account, which balances as long as
  the environment keeps \<open>room_may\<close>: a posted request runs while the send queue has room, and fewer
  than \<open>2 ^ 64 - 2\<close> requests are posted.
\<close>

definition unique_ids :: "u64 multiset \<Rightarrow> u64 \<Rightarrow> bool" where
  "unique_ids ids n \<longleftrightarrow> (\<forall>i. count ids i \<le> 1) \<and> (\<forall>i. i \<in># ids \<longrightarrow> i < n)"

lemma unique_ids_empty [simp]: "unique_ids {#} n"
  by (simp add: unique_ids_def)

lemma unique_ids_drop:
  assumes "unique_ids (add_mset i ids) n"
  shows "unique_ids ids n"
proof -
  have "count ids j \<le> 1" for j
    using assms le_trans [of "count ids j" "count (add_mset i ids) j" 1] by (simp add: unique_ids_def)
  with assms show ?thesis by (simp add: unique_ids_def)
qed

lemma distinct_if_count_le_1:
  assumes "\<And>a. count (mset xs) a \<le> 1"
  shows "distinct xs"
proof -
  have "count (mset xs) a = (if a \<in> set xs then 1 else 0)" for a
  proof (cases "a \<in> set xs")
    case True
    then have "0 < count (mset xs) a" by (simp only: count_greater_zero_iff set_mset_mset)
    with assms [of a] have "count (mset xs) a = 1" by linarith
    with True show ?thesis by simp
  qed (simp add: count_eq_zero_iff)
  then show ?thesis by (simp add: distinct_count_atmost_1)
qed

lemma unique_ids_next:
  assumes "unique_ids ids n" and "unat n + 1 < 2 ^ 64"
  shows "unique_ids (add_mset n ids) (n + 1)"
proof -
  have "i < n + 1 \<longleftrightarrow> i < n \<or> i = n" for i
    using assms(2) by (auto simp: word_less_nat_alt unat_word_ariths word_unat_eq_iff)
  moreover have "count ids n = 0"
    using assms(1) by (auto simp: unique_ids_def count_eq_zero_iff)
  ultimately show ?thesis
    using assms(1) by (auto simp: unique_ids_def)
qed

lemma unique_ids_um_wf: "unique_ids (request_ids w) n \<Longrightarrow> um_wf (inFlightRequests w)"
proof -
  assume u: "unique_ids (request_ids w) n"
  have "count (mset (map fst (inFlightRequests w))) i \<le> 1" for i
  proof -
    have "count (request_ids w) i \<le> 1" using u by (simp add: unique_ids_def)
    then show ?thesis by (simp add: request_ids_def)
  qed
  then show ?thesis
    unfolding um_wf_def by (rule distinct_if_count_le_1)
qed

lemma unique_ids_not_in_flight:
  assumes "unique_ids (add_mset i (request_ids w)) n"
  shows "um_find (inFlightRequests w) i = None"
proof -
  have "count (request_ids w) i = 0"
    using assms by (auto simp: unique_ids_def dest: spec [of _ i])
  then have "i \<notin># image_mset fst (mset (inFlightRequests w))"
    by (auto simp: request_ids_def count_eq_zero_iff)
  then show ?thesis
    by (simp add: um_find_def map_of_eq_None_iff)
qed

definition conserved :: "bool \<Rightarrow> ('l, 'cb) connection \<Rightarrow> bool" where
  "conserved k w \<longleftrightarrow>
     \<not> st_mutex (state w) \<and> accounted w = mset (postedRequests w) \<and> unique_ids (request_ids w) (reqId w)
     \<and> unat (reqId w) + ops_sum op_waiting (ioContext w) \<le> Suc (length (postedRequests w))
     \<and> Suc (length (postedRequests w)) < 2 ^ 64"

definition conserved_taken :: "'cb op \<Rightarrow> completion \<Rightarrow> ('l, 'cb) connection \<Rightarrow> bool" where
  "conserved_taken q c w \<longleftrightarrow>
     \<not> st_mutex (state w) \<and> op_handlers q + accounted w = mset (postedRequests w)
     \<and> unique_ids (op_ids q + request_ids w) (reqId w)
     \<and> unat (reqId w) + (op_waiting q + ops_sum op_waiting (ioContext w)) \<le> Suc (length (postedRequests w))
     \<and> Suc (length (postedRequests w)) < 2 ^ 64
     \<and> (op_waiting q > 0 \<longrightarrow> length (packetSendQueue (packetStream w)) < kMaxQueuedPackets)"

fun room_may :: "('l, 'cb) event \<Rightarrow> ('l, 'cb) connection \<Rightarrow> bool" where
  "room_may (UserRequest _ _ _ _) w \<longleftrightarrow> int (length (postedRequests w)) + 2 < 2 ^ 64"
| "room_may (Completion i c now) w \<longleftrightarrow>
     (i < length (ioContext w) \<longrightarrow> op_waiting (ioContext w ! i) > 0 \<longrightarrow>
      length (packetSendQueue (packetStream w)) < kMaxQueuedPackets)"
| "room_may _ w \<longleftrightarrow> True"

lemma done_counts:
  assumes "um_find (inFlightRequests w) i = Some req" and "unique_ids (request_ids w) n"
  shows "accounted (erase_request i (call_handler (r_handler req) status d w)) = accounted w"
    and "unique_ids (request_ids (erase_request i (call_handler (r_handler req) status d w))) n"
proof -
  note wf = unique_ids_um_wf [OF assms(2)]
  show "accounted (erase_request i (call_handler (r_handler req) status d w)) = accounted w"
    by (simp add: accounted_def in_flight_erase(1) [OF wf assms(1)])
  have "request_ids w = add_mset i (request_ids (erase_request i (call_handler (r_handler req) status d w)))"
    using in_flight_erase(2) [OF wf assms(1)] by (simp add: request_ids_def)
  with assms(2) show "unique_ids (request_ids (erase_request i (call_handler (r_handler req) status d w))) n"
    by (metis unique_ids_drop)
qed

lemma unat_reqId_next: "unat (n :: u64) + 1 < 2 ^ 64 \<Longrightarrow> unat (n + 1) = unat n + 1"
  by (simp add: unat_word_ariths)

interpretation requests: connection_invariant E room_may conserved conserved_taken
  for E :: "('z, 'v) env"
  by unfold_locales
    (auto simp: conserved_def conserved_taken_def account_laws send_packet_queue NewRequest_def
      unat_reqId_next done_counts
      intro: unique_ids_next dest: unique_ids_not_in_flight unique_ids_drop)

section \<open>Every request in flight has a live timer\<close>

text \<open>
  Asio completes a wait without an error when its time has come, and with an error only when the wait
  was cancelled; the code cancels the wait of a request by destroying its timer. \<open>timer_may\<close> is this
  promise for the waits of requests.
\<close>

fun timer_may :: "('l, 'cb) event \<Rightarrow> ('l, 'cb) connection \<Rightarrow> bool" where
  "timer_may (Completion i (WaitDone ec) now) w \<longleftrightarrow>
     (i < length (ioContext w) \<longrightarrow> (\<exists>r. ioContext w ! i = PendingWait (RequestTimer r) False) \<longrightarrow> \<not> ec_failed ec)"
| "timer_may _ w \<longleftrightarrow> True"

fun op_timers :: "'cb op \<Rightarrow> u64 set" where
  "op_timers (PendingWait (RequestTimer i) sp) = (if sp then {} else {i})"
| "op_timers _ = {}"

definition live_timers :: "'cb op list \<Rightarrow> u64 set" where
  "live_timers ops = (\<Union>p \<in> set ops. op_timers p)"

definition um_keys :: "('k, 'v) umap \<Rightarrow> 'k set" where
  "um_keys m = {k. um_find m k \<noteq> None}"

definition timed :: "bool \<Rightarrow> ('l, 'cb) connection \<Rightarrow> bool" where
  "timed k w \<longleftrightarrow> \<not> st_mutex (state w) \<and> um_keys (inFlightRequests w) \<subseteq> live_timers (ioContext w)"

definition timed_taken :: "'cb op \<Rightarrow> completion \<Rightarrow> ('l, 'cb) connection \<Rightarrow> bool" where
  "timed_taken q c w \<longleftrightarrow> \<not> st_mutex (state w) \<and> um_keys (inFlightRequests w) \<subseteq> op_timers q \<union> live_timers (ioContext w)
     \<and> (\<forall>ec. c = WaitDone ec \<longrightarrow> op_timers q \<noteq> {} \<longrightarrow> \<not> ec_failed ec)"

lemma live_timers_simps [simp]:
  "live_timers [] = {}"
  "live_timers (p # ops) = op_timers p \<union> live_timers ops"
  "live_timers (ops @ ops') = live_timers ops \<union> live_timers ops'"
  by (auto simp: live_timers_def)

lemma op_timers_supersede:
  "op_timers (supersede_op t p) = (case t of RequestTimer i \<Rightarrow> op_timers p - {i} | _ \<Rightarrow> op_timers p)"
  by (cases p rule: op_timers.cases) (auto split: timer.split)

lemma live_timers_supersede [simp]:
  "live_timers (supersede t ops) = (case t of RequestTimer i \<Rightarrow> live_timers ops - {i} | _ \<Rightarrow> live_timers ops)"
  by (induction ops) (auto simp: op_timers_supersede split: timer.split)

lemma live_timers_state [simp]:
  "live_timers (drop_heartbeat_timers ops) = live_timers ops"
  "live_timers (snd (ExtendHeartbeatTimeout now st ops)) = live_timers ops"
  "live_timers (snd (rearm_heartbeat st ops)) = live_timers ops"
  by (auto simp: drop_heartbeat_timers_def ExtendHeartbeatTimeout_def rearm_heartbeat_def
      split: StateType.split)

lemma live_timers_take:
  assumes "i < length ops"
  shows "live_timers ops = op_timers (ops ! i) \<union> (live_timers (take i ops) \<union> live_timers (drop (Suc i) ops))"
  using at_index [OF assms, of live_timers] by auto

lemma um_keys_simps [simp]:
  "um_keys (um_insert k v m) = insert k (um_keys m)"
  "um_keys (um_erase k m) = um_keys m - {k}"
  "um_find m k = Some v \<Longrightarrow> k \<in> um_keys m"
  "um_find m k = None \<Longrightarrow> k \<notin> um_keys m"
  by (auto simp: um_keys_def um_simps)

lemma op_timers_other [simp]:
  "droppable q \<Longrightarrow> op_timers q = {}"
  "op_timers (PostedSendNext h) = {}"
  "op_timers (PendingSend i buf h) = {}"
  by (cases q rule: droppable.cases; simp)+

lemma live_timers_to_connected:
  "to_connected E interval ser routes w = Inr w' \<Longrightarrow> live_timers (ioContext w') = live_timers (ioContext w)"
  by (auto simp: to_connected_Inr)

lemmas timed_defs = timed_def timed_taken_def

interpretation timers: connection_invariant E timer_may timed timed_taken
  for E :: "('z, 'v) env"
proof unfold_locales
  fix w :: "('l, 'cb) connection" and i c now
  assume "timed False w" and "timer_may (Completion i c now) w" and "i < length (ioContext w)"
  then show "timed_taken (ioContext w ! i) c ((take_op i w)\<lparr>clock := now\<rparr>)"
    by (cases c; cases "ioContext w ! i" rule: op_timers.cases)
      (auto simp: timed_defs live_timers_take [of i "ioContext w"])
next
  fix bid buf t m cb c and w :: "('l, 'cb) connection"
  assume "timed_taken (PendingSend bid buf (RequestSent t m cb)) c w"
  then show "timed False (start_ops [PendingWait (RequestTimer (m_id m)) (um_find (inFlightRequests w) (m_id m) \<noteq> None)]
           (w\<lparr>inFlightRequests := um_insert (m_id m) (new_Request cb t) (inFlightRequests w)\<rparr>))"
    by (cases "um_find (inFlightRequests w) (m_id m)") (auto simp: timed_defs)
qed (auto simp: timed_defs to_connected_same live_timers_to_connected receive_packets_Inr
      send_packet_queue PostRequest_def split: if_splits)

section \<open>Every request has the timeout it was posted with\<close>

fun requested :: "('l, 'cb) event \<Rightarrow> ('cb \<times> int) list" where
  "requested (UserRequest _ _ t cb) = [(cb, t)]"
| "requested _ = []"

fun op_asked :: "('cb \<times> int) set \<Rightarrow> 'cb op \<Rightarrow> bool" where
  "op_asked T (PostedRequest _ _ t cb) \<longleftrightarrow> (cb, t) \<in> T"
| "op_asked T (PostedSendNext (RequestSent t _ cb)) \<longleftrightarrow> (cb, t) \<in> T"
| "op_asked T (PendingSend _ _ (RequestSent t _ cb)) \<longleftrightarrow> (cb, t) \<in> T"
| "op_asked T _ \<longleftrightarrow> True"

definition asked :: "('cb \<times> int) set \<Rightarrow> bool \<Rightarrow> ('l, 'cb) connection \<Rightarrow> bool" where
  "asked T k w \<longleftrightarrow> \<not> st_mutex (state w) \<and> (\<forall>p \<in> set (ioContext w). op_asked T p)
     \<and> (\<forall>i req. um_find (inFlightRequests w) i = Some req \<longrightarrow>
          (\<exists>t. (r_handler req, t) \<in> T \<and> r_timeout req = ExpiresAfter t))"

definition asked_taken :: "('cb \<times> int) set \<Rightarrow> 'cb op \<Rightarrow> completion \<Rightarrow> ('l, 'cb) connection \<Rightarrow> bool" where
  "asked_taken T q c w \<longleftrightarrow> asked T False w \<and> op_asked T q"

lemma op_asked_send [simp]: "op_asked T (PendingSend i buf h) = op_asked T (PostedSendNext h)"
  by (cases h) simp_all

lemma op_asked_supersede [simp]: "op_asked T (supersede_op t p) = op_asked T p"
  by (cases p) simp_all

lemma set_supersede: "set (supersede t ops) = supersede_op t ` set ops"
  by (simp add: supersede_def)

lemma all_supersede:
  "(\<forall>p \<in> set (supersede t ops). op_asked T p) \<longleftrightarrow> (\<forall>p \<in> set ops. op_asked T p)"
  by (auto simp: set_supersede)

lemma asked_ops [simp]:
  "(\<forall>p \<in> set (drop_heartbeat_timers ops). op_asked T p) \<longleftrightarrow> (\<forall>p \<in> set ops. op_asked T p)"
  "(\<forall>p \<in> set (snd (ExtendHeartbeatTimeout now st ops)). op_asked T p) \<longleftrightarrow> (\<forall>p \<in> set ops. op_asked T p)"
  "(\<forall>p \<in> set (snd (rearm_heartbeat st ops)). op_asked T p) \<longleftrightarrow> (\<forall>p \<in> set ops. op_asked T p)"
  by (auto simp: drop_heartbeat_timers_def ExtendHeartbeatTimeout_def rearm_heartbeat_def all_supersede
      ball_Un split: StateType.split)

lemma asked_received:
  "OnReceiveComplete b rh off ec chunk s = Inr (s', del, ops) \<Longrightarrow> \<forall>p \<in> set ops. op_asked T p"
  "SendNextPacket b h s = Inr (s', ops) \<Longrightarrow> op_asked T (PostedSendNext h) \<Longrightarrow> \<forall>p \<in> set ops. op_asked T p"
  by (auto simp: OnReceiveComplete_def ReadToBuffer_def bindR_eq_Inr Let_def
      split: if_splits sum.splits fault.splits dest: tcp_sender.send_next_law)

lemma asked_handshake: "handshake_packet pkt h \<Longrightarrow> op_asked T (PostedSendNext h)"
  by (auto elim: handshake_packet.cases)

interpretation timeouts_asked: connection_invariant E "\<lambda>ev _. set (requested ev) \<subseteq> T" "asked T" "asked_taken T"
  for E :: "('z, 'v) env" and T
proof (unfold_locales, goal_cases)
  case (3 w i c now) then show ?case
    using in_taken [of i "ioContext w"] by (auto simp: asked_def asked_taken_def)
next
  case (10 bid buf interval ser routes ec n w w') then show ?case
    by (auto simp: asked_def asked_taken_def to_connected_Inr)
next
  case (15 w rh w') then show ?case
    by (auto simp: asked_def receive_packets_Inr)
next
  case (16 off n rh ec chunk w st del ops) then show ?case
    using asked_received(1) [of "e_build E" rh off ec chunk "packetStream w" st del ops T]
    by (auto simp: asked_def asked_taken_def)
next
  case (18 h w st ops) then show ?case
    using asked_received(2) [of "e_build E" h "packetStream w" st ops T] by (auto simp: asked_def asked_taken_def)
qed (auto simp: asked_def asked_taken_def PostRequest_def send_packet_queue asked_handshake um_simps all_supersede
      split: if_splits)

section \<open>Properties\<close>

lemma account_start: "within_account k (new_Connection E)"
  by (simp add: within_account_def new_Connection_def accounted_def)

lemma requests_start: "conserved k (new_Connection E)"
  by (simp add: conserved_def new_Connection_def accounted_def request_ids_def)

lemma timers_start: "timed k (new_Connection E)"
  by (simp add: timed_def new_Connection_def um_keys_def)

lemma asked_start: "asked T k (new_Connection E)"
  by (simp add: asked_def new_Connection_def)

lemma run_asked:
  assumes "foldR (exec E) es (new_Connection E) = Inr w" and "um_find (inFlightRequests w) i = Some req"
  shows "\<exists>r d t. UserRequest r d t (r_handler req) \<in> set es \<and> r_timeout req = ExpiresAfter t"
proof -
  let ?T = "\<Union>ev \<in> set es. set (requested ev)"
  have "allowed (exec E) (\<lambda>ev _. set (requested ev) \<subseteq> ?T) es (new_Connection E)"
    by (rule allowed_all) blast
  from timeouts_asked.run_inv [OF asked_start this assms(1)] assms(2)
  obtain t where t: "(r_handler req, t) \<in> ?T" "r_timeout req = ExpiresAfter t"
    unfolding asked_def by blast
  from t(1) obtain ev where "ev \<in> set es" "(r_handler req, t) \<in> set (requested ev)" by blast
  with t(2) show ?thesis by (cases ev) auto
qed

lemma run_posted_start:
  "foldR (exec E) es (new_Connection E) = Inr w \<Longrightarrow> postedRequests w = concat (map posted_by es)"
  using run_posted [OF _ account_start, of E es E w] by (simp add: new_Connection_def)

text \<open>
  C8: whatever the environment does, a run calls no request handler more often than requests were
  posted with it.
\<close>

theorem handler_called_at_most_once:
  assumes "foldR (exec E) es (new_Connection E) = Inr w"
  shows "mset (map fst (handlerCalls w)) \<subseteq># mset (concat (map posted_by es))"
proof -
  have "within_account False w"
    using account.run_inv [OF account_start _ assms] by simp
  then have "accounted w \<subseteq># mset (postedRequests w)"
    by (simp add: within_account_def)
  moreover have "mset (map fst (handlerCalls w)) \<subseteq># accounted w"
    by (simp add: accounted_def)
  ultimately show ?thesis
    using run_posted_start [OF assms] by (metis subset_mset.order_trans)
qed

theorem handler_called_at_most_once_witness:
  "mset (map fst (handlerCalls (run_state (handshake_run @ request_run)))) \<subseteq># mset [77]"
  using handler_called_at_most_once [OF sample_run_ends]
  by (simp add: handshake_run_def request_run_def)

text \<open>
  C1: no request is lost. In a run in which posted requests find room in the send queue, every
  posted handler is accounted for exactly once: it waits in an operation, is in flight, or has been
  called; the numbers of the requests on their way are all different. So once nothing is on its way,
  every handler has been called exactly as often as it was posted.
\<close>

theorem no_request_lost:
  assumes "foldR (exec E) es (new_Connection E) = Inr w"
    and "allowed (exec E) room_may es (new_Connection E)"
  shows "accounted w = mset (concat (map posted_by es))
     \<and> (\<forall>i. count (request_ids w) i \<le> 1)
     \<and> (inFlightRequests w = [] \<and> (\<forall>p \<in> set (ioContext w). op_handlers p = {#}) \<longrightarrow>
         mset (map fst (handlerCalls w)) = mset (concat (map posted_by es)))"
proof -
  have c: "conserved False w"
    using requests.run_inv [OF requests_start assms(2,1)] .
  with run_posted_start [OF assms(1)] have acc: "accounted w = mset (concat (map posted_by es))"
    by (simp add: conserved_def)
  moreover have "accounted w = mset (map fst (handlerCalls w))"
    if "inFlightRequests w = []" and "\<forall>p \<in> set (ioContext w). op_handlers p = {#}"
    using that by (simp add: accounted_def ops_sum_zero)
  ultimately show ?thesis
    using c by (auto simp: conserved_def unique_ids_def)
qed

theorem no_request_lost_witness:
  "accounted (run_state (handshake_run @ request_run)) = {#77#}
   \<and> (\<forall>i. count (request_ids (run_state (handshake_run @ request_run))) i \<le> 1)"
proof -
  have may: "allowed (exec sample_env) room_may (handshake_run @ request_run) (new_Connection sample_env)"
    by code_simp
  show ?thesis
    using no_request_lost [OF sample_run_ends may]
    by (simp add: handshake_run_def request_run_def)
qed

text \<open>
  C16: every request in flight can time out, and does so once. In a run in which Asio cancels no
  wait but those the code cancels, a request in flight has a pending wait; when its time comes, the
  handler is called with \<open>Timeout\<close> and the request is in flight no more. Its timer was set to the
  timeout that the application gave with this handler.
\<close>

theorem in_flight_request_times_out:
  assumes "foldR (exec E) es (new_Connection E) = Inr w"
    and "allowed (exec E) timer_may es (new_Connection E)"
    and "um_find (inFlightRequests w) i = Some req"
  shows "\<exists>j < length (ioContext w). ioContext w ! j = PendingWait (RequestTimer i) False
     \<and> (\<forall>now. \<exists>w'. exec E (Completion j (WaitDone ec_success) now) w = Inr w'
          \<and> handlerCalls w' = handlerCalls w @ [(r_handler req, Timeout, [])]
          \<and> inFlightRequests w' = um_erase i (inFlightRequests w))
     \<and> (\<exists>route d t. UserRequest route d t (r_handler req) \<in> set es \<and> r_timeout req = ExpiresAfter t)"
proof -
  have "timed False w"
    using timers.run_inv [OF timers_start assms(2,1)] .
  then have "i \<in> live_timers (ioContext w)"
    using assms(3) um_keys_simps(3) by (fastforce simp: timed_def)
  then obtain p where p: "p \<in> set (ioContext w)" "i \<in> op_timers p"
    by (auto simp: live_timers_def)
  from p(2) have "p = PendingWait (RequestTimer i) False"
    by (cases p rule: op_timers.cases) (auto split: if_splits)
  with p(1) obtain j where j: "j < length (ioContext w)" "ioContext w ! j = PendingWait (RequestTimer i) False"
    by (auto simp: in_set_conv_nth)
  then show ?thesis
    using assms(3) run_asked [OF assms(1,3)]
    by (intro exI [of _ j]) (simp add: OnRequestTimer_def ProcessRequestTimeout_def)
qed

theorem in_flight_request_times_out_witness:
  "\<exists>j < length (ioContext (run_state (handshake_run @ request_run))).
     ioContext (run_state (handshake_run @ request_run)) ! j = PendingWait (RequestTimer 1) False
     \<and> (\<forall>now. \<exists>w'. exec sample_env (Completion j (WaitDone ec_success) now)
            (run_state (handshake_run @ request_run)) = Inr w'
          \<and> handlerCalls w' = handlerCalls (run_state (handshake_run @ request_run)) @ [(77, Timeout, [])]
          \<and> inFlightRequests w' = um_erase 1 (inFlightRequests (run_state (handshake_run @ request_run))))"
proof -
  have may: "allowed (exec sample_env) timer_may (handshake_run @ request_run) (new_Connection sample_env)"
    by code_simp
  have "um_find (inFlightRequests (run_state (handshake_run @ request_run))) 1 = Some (new_Request 77 5)"
    by (simp add: sample_run_state um_find_def)
  from in_flight_request_times_out [OF sample_run_ends may this] show ?thesis
    unfolding new_Request_simps by blast
qed

end
