(* ===== verification/Connection_Events.thy ===== *)
theory Connection_Events
  imports Connection_Example
begin

text \<open>
  What the listeners hear, and the two heartbeat timers. The events a listener has heard determine
  whether the connection is connected. While it is connected, a wait for the next heartbeat is always
  pending; a wait for the heartbeat timeout is pending only until the server's first heartbeat.
\<close>

section \<open>The events of a session\<close>

text \<open>
  The protocol of the events, as an automaton with the connected flag as its state: an error or a
  kick comes only to a connected session; \<open>None\<close> is a word that breaks the protocol.
\<close>

fun session :: "bool \<Rightarrow> Event list \<Rightarrow> bool option" where
  "session con [] = Some con"
| "session con (EvConnected # evs) = session True evs"
| "session con (EvConnectionFailed # evs) = session False evs"
| "session con (ev # evs) = (if con then session False evs else None)"

lemma session_append:
  "session con (evs @ evs') = Option.bind (session con evs) (\<lambda>con'. session con' evs')"
  by (induction con evs rule: session.induct) simp_all

definition heard :: "'l \<Rightarrow> ('l \<times> Event \<times> string) list \<Rightarrow> Event list" where
  "heard l calls = map (\<lambda>(_, ev, _). ev) (filter (\<lambda>(l', _). l' = l) calls)"

lemma heard_append [simp]: "heard l (calls @ calls') = heard l calls @ heard l calls'"
  by (simp add: heard_def)

lemma heard_broadcast [simp]:
  "distinct (el_listeners el) \<Longrightarrow>
   heard l (EventListeners_Broadcast el ev msg) = (if l \<in> set (el_listeners el) then [ev] else [])"
proof -
  have "heard l (map (\<lambda>l. (l, ev, msg)) ls) = (if l \<in> set ls then [ev] else [])" if "distinct ls" for ls
    using that by (induction ls) (auto simp: heard_def)
  then show "distinct (el_listeners el) \<Longrightarrow> ?thesis" by (simp add: EventListeners_Broadcast_def)
qed

text \<open>The application registers a listener once, while the connection is not connected.\<close>

fun listener_may :: "('l, 'cb) event \<Rightarrow> ('l, 'cb) connection \<Rightarrow> bool" where
  "listener_may (UserAddListener l) w \<longleftrightarrow> l \<notin> set (el_listeners (eventListeners w)) \<and> \<not> IsConnected (state w)"
| "listener_may _ w \<longleftrightarrow> True"

text \<open>
  What one listener has heard: a registered listener a word of the protocol that ends in the present
  state, any other nothing.
\<close>

definition heard_ok :: "'l list \<Rightarrow> ('l \<times> Event \<times> string) list \<Rightarrow> bool \<Rightarrow> 'l \<Rightarrow> bool" where
  "heard_ok ls calls con l \<longleftrightarrow>
     (if l \<in> set ls then session False (heard l calls) = Some con else heard l calls = [])"

definition told :: "bool \<Rightarrow> ('l, 'cb) connection \<Rightarrow> bool" where
  "told k w \<longleftrightarrow> \<not> st_mutex (state w) \<and> distinct (el_listeners (eventListeners w))
     \<and> (\<forall>l. heard_ok (el_listeners (eventListeners w)) (listenerCalls w) (IsConnected (state w)) l)"

definition told_taken :: "'cb op \<Rightarrow> completion \<Rightarrow> ('l, 'cb) connection \<Rightarrow> bool" where
  "told_taken q c w = told False w"

lemma told_cong:
  assumes "eventListeners w' = eventListeners w" and "listenerCalls w' = listenerCalls w"
    and "IsConnected (state w') = IsConnected (state w)" and "st_mutex (state w') = st_mutex (state w)"
  shows "told k w \<Longrightarrow> told k' w'"
  using assms by (simp add: told_def)

lemma heard_ok_broadcast:
  assumes "heard_ok (el_listeners el) calls con l" and "distinct (el_listeners el)"
    and "session con [ev] = Some con'"
  shows "heard_ok (el_listeners el) (calls @ EventListeners_Broadcast el ev msg) con' l"
proof (cases "l \<in> set (el_listeners el)")
  case True
  then have "heard l (calls @ EventListeners_Broadcast el ev msg) = heard l calls @ [ev]"
    using assms(2) by simp
  moreover have "session False (heard l calls @ [ev]) = Some con'"
    using assms(1,3) True by (simp add: heard_ok_def session_append)
  ultimately show ?thesis using True by (simp add: heard_ok_def)
next
  case False
  with assms(1,2) show ?thesis by (simp add: heard_ok_def)
qed

lemma told_broadcast:
  assumes "told k w" and "session (IsConnected (state w)) [ev] = Some (IsConnected (state w'))"
    and "eventListeners w' = eventListeners w" and "st_mutex (state w') = st_mutex (state w)"
    and "listenerCalls w' = listenerCalls w @ EventListeners_Broadcast (eventListeners w) ev msg"
  shows "told k' w'"
  using assms(1) by (auto simp: told_def assms(3-5) intro!: heard_ok_broadcast [OF _ _ assms(2)])

lemma told_add:
  assumes "told False w" and "listener_may (UserAddListener l) w"
  shows "told False (w\<lparr>eventListeners := EventListeners_Add l (eventListeners w)\<rparr>)"
proof -
  have "heard_ok (el_listeners (eventListeners w) @ [l]) (listenerCalls w) (IsConnected (state w)) l'"
    if "heard_ok (el_listeners (eventListeners w)) (listenerCalls w) (IsConnected (state w)) l'" for l'
    using that assms(2) by (cases "l' = l") (simp_all add: heard_ok_def)
  with assms show ?thesis by (simp add: told_def EventListeners_Add_def)
qed

interpretation listeners: connection_invariant E listener_may told told_taken
  for E :: "('z, 'v) env"
proof (unfold_locales, unfold told_taken_def)
  fix k w ev msg
  assume "told k w" and "ev = EvConnectionFailed \<or> IsConnected (state w) \<and> ev \<in> {EvConnectionError, EvKicked}"
  then show "told k (to_inited ev msg w)"
    by (auto intro: told_broadcast [where ev = ev and msg = msg and k = k and w = w])
next
  fix interval ser routes w w'
  assume "told False w" and "to_connected E interval ser routes w = Inr w'"
  then show "told True w'"
    by (auto simp: to_connected_Inr
        intro: told_broadcast [where ev = EvConnected and msg = "''Connection successful''" and k = False and w = w])
next
  fix w l
  assume "told False w" and "listener_may (UserAddListener l) w"
  then show "told False (w\<lparr>eventListeners := EventListeners_Add l (eventListeners w)\<rparr>)"
    by (rule told_add)
next
  show "told k w \<Longrightarrow> \<not> st_mutex (state w)" for k w by (simp add: told_def)
qed (auto simp: receive_packets_Inr PostRequest_def elim!: told_cong [rotated 4])



section \<open>The heartbeat timer\<close>

lemma live_wait_supersede_op:
  "PendingWait t False = supersede_op t' p \<longleftrightarrow> t \<noteq> t' \<and> PendingWait t False = p"
  by (cases p) auto

lemma live_wait_supersede [simp]:
  "PendingWait t False \<in> set (supersede t' ops) \<longleftrightarrow> t \<noteq> t' \<and> PendingWait t False \<in> set ops"
  by (induction ops) (simp_all add: live_wait_supersede_op, blast)

lemma live_wait_extended [simp]:
  "PendingWait t False \<in> set (snd (ExtendHeartbeatTimeout now st ops)) \<longleftrightarrow>
     (IsConnected st \<longrightarrow> t \<noteq> HeartbeatTimeoutTimer) \<and> PendingWait t False \<in> set ops"
  by (auto simp: ExtendHeartbeatTimeout_def IsConnected_def split: StateType.split)

lemma live_wait_rearmed [simp]:
  "PendingWait t False \<in> set (snd (rearm_heartbeat st ops)) \<longleftrightarrow>
     IsConnected st \<and> t = HeartbeatTimer \<or> PendingWait t False \<in> set ops"
  by (auto simp: rearm_heartbeat_def IsConnected_def split: StateType.split)

lemma live_wait_dropped [simp]:
  "PendingWait t False \<in> set (drop_heartbeat_timers ops) \<longleftrightarrow>
     t \<noteq> HeartbeatTimer \<and> t \<noteq> HeartbeatTimeoutTimer \<and> PendingWait t False \<in> set ops"
  by (auto simp: drop_heartbeat_timers_def)

text \<open>Asio cancels no wait for the next heartbeat that the code has not cancelled.\<close>

fun tick_may :: "('l, 'cb) event \<Rightarrow> ('l, 'cb) connection \<Rightarrow> bool" where
  "tick_may (Completion i (WaitDone ec) now) w \<longleftrightarrow>
     (i < length (ioContext w) \<longrightarrow> ioContext w ! i = PendingWait HeartbeatTimer False \<longrightarrow> \<not> ec_failed ec)"
| "tick_may _ w \<longleftrightarrow> True"

definition beating :: "bool \<Rightarrow> ('l, 'cb) connection \<Rightarrow> bool" where
  "beating k w \<longleftrightarrow> \<not> st_mutex (state w)
     \<and> (IsConnected (state w) \<longrightarrow> PendingWait HeartbeatTimer False \<in> set (ioContext w))"

definition beating_taken :: "'cb op \<Rightarrow> completion \<Rightarrow> ('l, 'cb) connection \<Rightarrow> bool" where
  "beating_taken q c w \<longleftrightarrow> \<not> st_mutex (state w)
     \<and> (IsConnected (state w) \<longrightarrow>
          q = PendingWait HeartbeatTimer False \<or> PendingWait HeartbeatTimer False \<in> set (ioContext w))
     \<and> (\<forall>ec. q = PendingWait HeartbeatTimer False \<longrightarrow> c = WaitDone ec \<longrightarrow> \<not> ec_failed ec)"

lemma beating_take_op:
  assumes "beating False w" and "tick_may (Completion i c now) w" and "i < length (ioContext w)"
  shows "beating_taken (ioContext w ! i) c ((take_op i w)\<lparr>clock := now\<rparr>)"
  using assms in_taken [OF assms(3), of "PendingWait HeartbeatTimer False"]
  by (cases c) (auto simp: beating_def beating_taken_def)

lemma not_live_tick [simp]: "droppable q \<Longrightarrow> q \<noteq> PendingWait HeartbeatTimer False"
  by auto

interpretation heartbeats: connection_invariant E tick_may beating beating_taken
  for E :: "('z, 'v) env"
proof unfold_locales
  fix w i c now
  assume "beating False w" and "tick_may (Completion i c now) w" and "i < length (ioContext w)"
  then show "beating_taken (ioContext w ! i) c ((take_op i w)\<lparr>clock := now\<rparr>)"
    by (rule beating_take_op)
qed (auto simp: beating_def beating_taken_def receive_packets_Inr PostRequest_def send_packet_queue
      to_connected_Inr)

lemma beating_start: "beating k (new_Connection E)"
  by (simp add: beating_def new_Connection_def IsConnected_def)



section \<open>The heartbeat timeout\<close>

text \<open>
  \<open>quiet_may\<close>: no handshake ack is sent with success (the connection is not set up anew), and a wait
  that the code has cancelled completes with an error, as Asio documents.
\<close>

fun quiet_may :: "('l, 'cb) event \<Rightarrow> ('l, 'cb) connection \<Rightarrow> bool" where
  "quiet_may (Completion i (SendDone ec n) now) w \<longleftrightarrow>
     (i < length (ioContext w) \<longrightarrow>
      (case ioContext w ! i of PendingSend _ _ (HandshakeAckSent _ _ _) \<Rightarrow> ec_failed ec | _ \<Rightarrow> True))"
| "quiet_may (Completion i (WaitDone ec) now) w \<longleftrightarrow>
     (i < length (ioContext w) \<longrightarrow> (case ioContext w ! i of PendingWait _ True \<Rightarrow> ec_failed ec | _ \<Rightarrow> True))"
| "quiet_may _ w \<longleftrightarrow> True"

definition unwatched :: "bool \<Rightarrow> ('l, 'cb) connection \<Rightarrow> bool" where
  "unwatched k w \<longleftrightarrow> \<not> st_mutex (state w) \<and> PendingWait HeartbeatTimeoutTimer False \<notin> set (ioContext w)"

definition unwatched_taken :: "'cb op \<Rightarrow> completion \<Rightarrow> ('l, 'cb) connection \<Rightarrow> bool" where
  "unwatched_taken q c w \<longleftrightarrow> \<not> st_mutex (state w) \<and> PendingWait HeartbeatTimeoutTimer False \<notin> set (ioContext w)
     \<and> (\<forall>bid buf interval ser routes ec n. q = PendingSend bid buf (HandshakeAckSent interval ser routes) \<longrightarrow>
           c = SendDone ec n \<longrightarrow> ec_failed ec)"

lemma unwatched_take_op:
  assumes "unwatched False w" and "quiet_may (Completion i c now) w" and "i < length (ioContext w)"
  shows "unwatched_taken (ioContext w ! i) c ((take_op i w)\<lparr>clock := now\<rparr>)"
  using assms in_taken [OF assms(3), of "PendingWait HeartbeatTimeoutTimer False"]
  by (cases c) (auto simp: unwatched_def unwatched_taken_def)

lemma no_wait_started:
  "OnReceiveComplete b rh off ec chunk s = Inr (s', del, ops) \<Longrightarrow> PendingWait t sp \<notin> set ops"
  "SendNextPacket b h s = Inr (s', ops) \<Longrightarrow> PendingWait t sp \<notin> set ops"
  by (auto simp: OnReceiveComplete_def ReadToBuffer_def bindR_eq_Inr Let_def
      split: if_splits sum.splits fault.splits dest: tcp_sender.send_next_law)

interpretation timeouts: connection_invariant E quiet_may unwatched unwatched_taken
  for E :: "('z, 'v) env"
proof unfold_locales
  fix w i c now
  assume "unwatched False w" and "quiet_may (Completion i c now) w" and "i < length (ioContext w)"
  then show "unwatched_taken (ioContext w ! i) c ((take_op i w)\<lparr>clock := now\<rparr>)"
    by (rule unwatched_take_op)
qed (auto simp: unwatched_def unwatched_taken_def receive_packets_Inr PostRequest_def send_packet_queue
      no_wait_started)

lemma unwatched_after_heartbeat:
  assumes "\<not> st_mutex (state w)" and "IsConnected (state w)" and "p_type p = Heartbeat"
    and "ProcessPacket E p w = Inr w1"
  shows "unwatched False w1"
  using assms by (auto simp: ProcessPacket_def unwatched_def)



end
