(* ===== verification/Connection_Streams.thy ===== *)
theory Connection_Streams
  imports Connection_Example
begin

text \<open>
  The connection and its packet stream. Sending: the queue holds one packet per posted task, at most
  fifty, so that a task always finds one; and where the posted tasks run in the order they were
  posted, each write sends the packet its handler belongs to. Receiving: as long as one session
  reads, at most one receive is pending, and it writes into the free part of the read buffer.
\<close>

section \<open>The send queue\<close>

lemma send_next_handlers_state [simp]:
  "send_next_handlers (drop_heartbeat_timers ops) = send_next_handlers ops"
  "send_next_handlers (snd (ExtendHeartbeatTimeout now st ops)) = send_next_handlers ops"
  "send_next_handlers (snd (rearm_heartbeat st ops)) = send_next_handlers ops"
  by (simp_all add: drop_heartbeat_timers_def ExtendHeartbeatTimeout_def rearm_heartbeat_def
      split: StateType.split)

lemma send_next_handlers_take:
  assumes "i < length ops"
  shows "send_next_handlers ops =
     send_next_handlers (take i ops)
     @ (case send_next_handler (ops ! i) of None \<Rightarrow> [] | Some h \<Rightarrow> [h]) @ send_next_handlers (drop (Suc i) ops)"
  using at_index [OF assms, of send_next_handlers] by (auto split: option.split)

lemma send_next_handler_other [simp]:
  "droppable q \<Longrightarrow> send_next_handler q = None"
  by (cases q) auto

lemma send_queue_received:
  "OnReceiveComplete b rh off ec chunk s = Inr (s', del, ops) \<Longrightarrow> send_next_handlers ops = []"
  by (auto simp: OnReceiveComplete_def ReadToBuffer_def bindR_eq_Inr Let_def
      split: if_splits sum.splits fault.splits)

definition queued :: "bool \<Rightarrow> ('l, 'cb) connection \<Rightarrow> bool" where
  "queued k w \<longleftrightarrow> \<not> st_mutex (state w)
     \<and> length (packetSendQueue (packetStream w)) = length (send_next_handlers (ioContext w))
     \<and> length (packetSendQueue (packetStream w)) \<le> kMaxQueuedPackets"

definition queued_taken :: "'cb op \<Rightarrow> completion \<Rightarrow> ('l, 'cb) connection \<Rightarrow> bool" where
  "queued_taken q c w \<longleftrightarrow> \<not> st_mutex (state w)
     \<and> length (packetSendQueue (packetStream w)) =
         (case send_next_handler q of None \<Rightarrow> 0 | Some h \<Rightarrow> 1) + length (send_next_handlers (ioContext w))
     \<and> length (packetSendQueue (packetStream w)) \<le> kMaxQueuedPackets"

lemma queued_take_op:
  "queued False w \<Longrightarrow> i < length (ioContext w) \<Longrightarrow>
   queued_taken (ioContext w ! i) c ((take_op i w)\<lparr>clock := now\<rparr>)"
  by (simp add: queued_def queued_taken_def send_next_handlers_take [of i "ioContext w"] split: option.split)

interpretation send_queue: connection_invariant E "\<lambda>_ _. True" queued queued_taken
  for E :: "('z, 'v) env"
  by unfold_locales
    (auto simp: queued_take_op, auto simp: queued_def queued_taken_def to_connected_Inr receive_packets_Inr
      PostRequest_def send_packet_queue send_queue_received OnReceive_send_side(1) tcp_sender.send_next_length)

lemma queued_start: "queued k (new_Connection E)"
  by (simp add: queued_def new_Connection_def new_TcpPacketStream_def)

text \<open>
  The send queue never holds more than fifty packets and always as many as there are posted send
  tasks, whatever the order in which they run; so a task that runs finds a packet, and the assertion
  of \<open>SendNextPacket\<close> on the empty queue cannot fail.
\<close>

theorem posted_send_finds_packet:
  assumes "foldR (exec E) es (new_Connection E) = Inr w"
  shows "length (packetSendQueue (packetStream w)) = length (send_next_handlers (ioContext w))
     \<and> length (packetSendQueue (packetStream w)) \<le> kMaxQueuedPackets
     \<and> (\<forall>h. PostedSendNext h \<in> set (ioContext w) \<longrightarrow> packetSendQueue (packetStream w) \<noteq> [])"
proof -
  from send_queue.run_inv [OF queued_start _ assms] have q: "queued False w" by simp
  have "send_next_handlers (ioContext w) \<noteq> []" if "PostedSendNext h \<in> set (ioContext w)" for h
    using that by (auto dest!: split_list)
  with q show ?thesis by (auto simp: queued_def)
qed

theorem posted_send_finds_packet_witness:
  "length (packetSendQueue (packetStream (run_state (handshake_run @ request_run)))) =
     length (send_next_handlers (ioContext (run_state (handshake_run @ request_run))))"
  using posted_send_finds_packet [OF sample_run_ends] by simp

text \<open>The packet that a handler belongs to.\<close>

fun goes_with :: "Packet \<Rightarrow> 'cb send_handler \<Rightarrow> bool" where
  "goes_with p HandshakeSent \<longleftrightarrow> p = NewHandshake handshake_json"
| "goes_with p (HandshakeAckSent _ _ _) \<longleftrightarrow> p = NewHandshakeAck"
| "goes_with p HeartbeatSent \<longleftrightarrow> p = NewHeartbeat"
| "goes_with p (RequestSent _ m _) \<longleftrightarrow> (\<exists>dict. NewData m dict = Inr p)"

fun write_ok :: "'cb op \<Rightarrow> bool" where
  "write_ok (PendingSend _ buf h) \<longleftrightarrow> (\<exists>p. goes_with p h \<and> buf = serialize p)"
| "write_ok _ \<longleftrightarrow> True"

text \<open>The tasks posted by \<open>SendPacket\<close> run in the order they were posted.\<close>

fun fifo_may :: "('l, 'cb) event \<Rightarrow> ('l, 'cb) connection \<Rightarrow> bool" where
  "fifo_may (Completion i Run now) w \<longleftrightarrow>
     (i < length (ioContext w) \<longrightarrow> send_next_handler (ioContext w ! i) \<noteq> None \<longrightarrow>
      send_next_handlers (take i (ioContext w)) = [])"
| "fifo_may _ w \<longleftrightarrow> True"

definition matched :: "bool \<Rightarrow> ('l, 'cb) connection \<Rightarrow> bool" where
  "matched k w \<longleftrightarrow> \<not> st_mutex (state w)
     \<and> list_all2 goes_with (packetSendQueue (packetStream w)) (send_next_handlers (ioContext w))
     \<and> list_all write_ok (ioContext w)"

definition matched_taken :: "'cb op \<Rightarrow> completion \<Rightarrow> ('l, 'cb) connection \<Rightarrow> bool" where
  "matched_taken q c w \<longleftrightarrow> \<not> st_mutex (state w)
     \<and> list_all2 goes_with (packetSendQueue (packetStream w))
         ((case send_next_handler q of None \<Rightarrow> [] | Some h \<Rightarrow> [h]) @ send_next_handlers (ioContext w))
     \<and> list_all write_ok (ioContext w)"

lemma write_ok_supersede_op [simp]: "write_ok (supersede_op t p) = write_ok p"
  by (cases p) simp_all

lemma write_ok_supersede [simp]: "list_all write_ok (supersede t ops) = list_all write_ok ops"
  by (induction ops) simp_all

lemma write_ok_state [simp]:
  "list_all write_ok (drop_heartbeat_timers ops) = list_all write_ok ops"
  "list_all write_ok (snd (ExtendHeartbeatTimeout now st ops)) = list_all write_ok ops"
  "list_all write_ok (snd (rearm_heartbeat st ops)) = list_all write_ok ops"
  by (simp_all add: drop_heartbeat_timers_def ExtendHeartbeatTimeout_def rearm_heartbeat_def
      split: StateType.split)

lemma write_ok_received:
  "OnReceiveComplete b rh off ec chunk s = Inr (s', del, ops) \<Longrightarrow> list_all write_ok ops"
  by (auto simp: OnReceiveComplete_def ReadToBuffer_def bindR_eq_Inr Let_def
      split: if_splits sum.splits fault.splits)

lemma goes_with_handshake: "handshake_packet p h \<Longrightarrow> goes_with p h"
  by (auto elim: handshake_packet.cases)

lemma matched_send:
  assumes "list_all2 goes_with (packetSendQueue (packetStream w)) (send_next_handlers (ioContext w))"
    and "goes_with p h"
  shows "list_all2 goes_with (packetSendQueue (packetStream (send_packet p h w)))
           (send_next_handlers (ioContext (send_packet p h w)))"
proof (cases "SendPacket p h (packetStream w)")
  case (Pair s ops)
  from tcp_sender.send_matched [OF assms(1) Pair assms(2)] Pair show ?thesis
    by (simp add: send_packet_def start_ops_def)
qed

lemma write_ok_send [simp]: "list_all write_ok (ioContext (send_packet p h w)) = list_all write_ok (ioContext w)"
  by (simp add: send_packet_queue)

lemma matched_take_op:
  assumes "matched False w" and "fifo_may (Completion i c now) w" and "i < length (ioContext w)"
    and "complete E (ioContext w ! i) c ((take_op i w)\<lparr>clock := now\<rparr>) \<noteq> None"
  shows "matched_taken (ioContext w ! i) c ((take_op i w)\<lparr>clock := now\<rparr>)"
proof -
  have fifo: "send_next_handlers (take i (ioContext w)) = []" if "send_next_handler (ioContext w ! i) = Some h" for h
    using that assms(2-4) by (cases "ioContext w ! i"; cases c) simp_all
  have "list_all write_ok (take i (ioContext w) @ drop (Suc i) (ioContext w))"
    using assms(1) by (auto simp: matched_def list_all_iff dest: in_set_takeD in_set_dropD)
  then show ?thesis
    using assms(1) fifo send_next_handlers_take [OF assms(3)]
    by (auto simp: matched_def matched_taken_def split: option.splits)
qed

interpretation send_order: connection_invariant E fifo_may matched matched_taken
  for E :: "('z, 'v) env"
proof unfold_locales
  fix w i c now
  assume "matched False w" and "fifo_may (Completion i c now) w" and "i < length (ioContext w)"
    and "complete E (ioContext w ! i) c ((take_op i w)\<lparr>clock := now\<rparr>) \<noteq> None"
  then show "matched_taken (ioContext w ! i) c ((take_op i w)\<lparr>clock := now\<rparr>)"
    by (rule matched_take_op)
next
  fix h w s ops
  assume "matched_taken (PostedSendNext h) Run w" and "SendNextPacket (e_build E) h (packetStream w) = Inr (s, ops)"
  then show "matched False (start_ops ops (w\<lparr>packetStream := s\<rparr>))"
    using tcp_sender.send_next_matched [of goes_with "packetStream w" h "send_next_handlers (ioContext w)" "e_build E" s ops]
    by (auto simp: matched_def matched_taken_def)
qed (auto simp: matched_def matched_taken_def to_connected_Inr receive_packets_Inr PostRequest_def
      send_queue_received OnReceive_send_side(1) write_ok_received goes_with_handshake
      intro!: matched_send)

text \<open>
  C13: each write sends the packet of its own handler. In a run in which posted tasks run in the order
  they were posted, the bytes of every pending write are those of the packet that was queued together
  with the handler that will be called when the write completes.
\<close>

theorem write_belongs_to_its_handler:
  assumes "foldR (exec E) es (new_Connection E) = Inr w"
    and "allowed (exec E) fifo_may es (new_Connection E)"
    and "PendingSend bid buf h \<in> set (ioContext w)"
  shows "\<exists>p. goes_with p h \<and> buf = serialize p"
proof -
  have "matched False (new_Connection E)"
    by (simp add: matched_def new_Connection_def new_TcpPacketStream_def)
  from send_order.run_inv [OF this assms(2,1)] have "list_all write_ok (ioContext w)"
    by (simp add: matched_def)
  with assms(3) show ?thesis by (auto simp: list_all_iff)
qed

theorem write_belongs_to_its_handler_witness:
  "\<exists>p. goes_with p (HandshakeSent :: nat send_handler)
     \<and> Packet_SerializeInto (NewHandshake handshake_json) [] = serialize p"
proof (rule write_belongs_to_its_handler)
  show r: "foldR (exec sample_env) (take 4 handshake_run) (new_Connection sample_env) =
      Inr (run_state (take 4 handshake_run))"
    by (rule run_state_Inr) code_simp
  show "allowed (exec sample_env) fifo_may (take 4 handshake_run) (new_Connection sample_env)"
    by code_simp
  have "ioContext (run_state (take 4 handshake_run)) =
      [PendingSend 0 (Packet_SerializeInto (NewHandshake handshake_json) []) HandshakeSent]"
    by code_simp
  then show "PendingSend 0 (Packet_SerializeInto (NewHandshake handshake_json) []) HandshakeSent
      \<in> set (ioContext (run_state (take 4 handshake_run)))"
    by simp
qed

section \<open>The reader\<close>

text \<open>
  \<open>session_may\<close>: the application starts the connection only when no operation is pending that
  leads to a receive (one session at a time), and a successful receive brings at most as many bytes
  as there is room for.
\<close>

definition readers :: "'cb op list \<Rightarrow> nat" where
  "readers ops = length (filter reader_op ops)"

fun receive_ok :: "tcp_packet_stream \<Rightarrow> 'cb op \<Rightarrow> bool" where
  "receive_ok s (PendingReceive off n _) \<longleftrightarrow>
     off = readBufferHead s \<and> n = readBufferMaxSize s - readBufferHead s"
| "receive_ok s _ \<longleftrightarrow> True"

fun session_may :: "('l, 'cb) event \<Rightarrow> ('l, 'cb) connection \<Rightarrow> bool" where
  "session_may (UserStart _ _) w \<longleftrightarrow> readers (ioContext w) = 0"
| "session_may (Completion i (ReceiveDone ec chunk) now) w \<longleftrightarrow>
     (i < length (ioContext w) \<longrightarrow>
      (case ioContext w ! i of PendingReceive off n _ \<Rightarrow> \<not> ec_failed ec \<longrightarrow> length chunk \<le> n | _ \<Rightarrow> True))"
| "session_may _ w \<longleftrightarrow> True"

definition reading :: "bool \<Rightarrow> ('l, 'cb) connection \<Rightarrow> bool" where
  "reading k w \<longleftrightarrow> \<not> st_mutex (state w) \<and> stream_wf (packetStream w)
     \<and> readers (ioContext w) + of_bool k \<le> 1
     \<and> list_all (receive_ok (packetStream w)) (ioContext w)"

definition reading_taken :: "'cb op \<Rightarrow> completion \<Rightarrow> ('l, 'cb) connection \<Rightarrow> bool" where
  "reading_taken q c w \<longleftrightarrow> \<not> st_mutex (state w) \<and> stream_wf (packetStream w)
     \<and> readers (ioContext w) + of_bool (reader_op q) \<le> 1
     \<and> list_all (receive_ok (packetStream w)) (q # ioContext w)
     \<and> (\<forall>off n rh ec chunk. q = PendingReceive off n rh \<longrightarrow> c = ReceiveDone ec chunk \<longrightarrow>
           \<not> ec_failed ec \<longrightarrow> length chunk \<le> n)"

lemma readers_simps [simp]:
  "readers [] = 0"
  "readers (p # ops) = of_bool (reader_op p) + readers ops"
  "readers (ops @ ops') = readers ops + readers ops'"
  by (simp_all add: readers_def)

lemma reader_op_supersede [simp]: "reader_op (supersede_op t p) = reader_op p"
  by (cases p) simp_all

lemma receive_ok_supersede_op [simp]: "receive_ok s (supersede_op t p) = receive_ok s p"
  by (cases p) simp_all

lemma supersede_reader [simp]:
  "readers (supersede t ops) = readers ops"
  "list_all (receive_ok s) (supersede t ops) = list_all (receive_ok s) ops"
  by (induction ops) simp_all

lemma reader_state [simp]:
  "readers (drop_heartbeat_timers ops) = readers ops"
  "readers (snd (ExtendHeartbeatTimeout now st ops)) = readers ops"
  "readers (snd (rearm_heartbeat st ops)) = readers ops"
  "list_all (receive_ok s) (drop_heartbeat_timers ops) = list_all (receive_ok s) ops"
  "list_all (receive_ok s) (snd (ExtendHeartbeatTimeout now st ops)) = list_all (receive_ok s) ops"
  "list_all (receive_ok s) (snd (rearm_heartbeat st ops)) = list_all (receive_ok s) ops"
  by (simp_all add: drop_heartbeat_timers_def ExtendHeartbeatTimeout_def rearm_heartbeat_def
      split: StateType.split)

lemma stream_wf_cong [simp]:
  "stream_wf (s\<lparr>packetSendQueue := q\<rparr>) = stream_wf s"
  "stream_wf (s\<lparr>writeBuffers := b\<rparr>) = stream_wf s"
  "stream_wf (s\<lparr>writeId := n\<rparr>) = stream_wf s"
  by (simp_all add: stream_wf_def)

lemma stream_room:
  "stream_wf s \<Longrightarrow>
   size_t_minus (length (readBuffer s)) (readBufferHead s) = readBufferMaxSize s - readBufferHead s"
  by (simp add: stream_wf_def)

lemma receive_ok_same:
  assumes "readBufferHead s' = readBufferHead s" and "readBufferMaxSize s' = readBufferMaxSize s"
  shows "receive_ok s' = receive_ok s"
proof
  fix p :: "'cb op"
  show "receive_ok s' p = receive_ok s p" using assms by (cases p) simp_all
qed

lemma receive_ok_cong [simp]:
  "receive_ok (s\<lparr>packetSendQueue := q\<rparr>) = receive_ok s"
  "receive_ok (s\<lparr>writeBuffers := b\<rparr>) = receive_ok s"
  by (rule receive_ok_same; simp)+

lemma reader_send_next:
  assumes "SendNextPacket b h s = Inr (s', ops)"
  shows "stream_wf s' = stream_wf s" and "receive_ok s' = receive_ok s"
    and "readers ops = of_bool (reads_on h)" and "list_all (receive_ok t) ops"
proof -
  obtain q n bs i buf where s': "s' = s\<lparr>packetSendQueue := q, writeId := n, writeBuffers := bs\<rparr>"
    and ops: "ops = [PendingSend i buf h]"
    using assms by (cases "packetSendQueue s") (auto simp: SendNextPacket_def bindR_eq_Inr Let_def)
  show "stream_wf s' = stream_wf s" by (simp add: s')
  show "receive_ok s' = receive_ok s" by (rule receive_ok_same) (simp_all add: s')
  show "readers ops = of_bool (reads_on h)" "list_all (receive_ok t) ops"
    by (simp_all add: ops)
qed

lemma no_reader_receive_ok: "readers ops = 0 \<Longrightarrow> list_all (receive_ok s) ops"
proof (induction ops)
  case (Cons p ops)
  then show ?case by (cases p) auto
qed simp

lemma readers_take:
  assumes "i < length ops"
  shows "readers ops = of_bool (reader_op (ops ! i)) + (readers (take i ops) + readers (drop (Suc i) ops))"
  using at_index [OF assms, of readers] by simp

lemma reading_take_op:
  assumes "reading False w" and "session_may (Completion i c now) w" and "i < length (ioContext w)"
  shows "reading_taken (ioContext w ! i) c ((take_op i w)\<lparr>clock := now\<rparr>)"
proof -
  have "list_all (receive_ok (packetStream w)) (take i (ioContext w))"
    "list_all (receive_ok (packetStream w)) (drop (Suc i) (ioContext w))"
    "receive_ok (packetStream w) (ioContext w ! i)"
    using assms by (auto simp: reading_def list_all_iff dest: in_set_takeD in_set_dropD)
  moreover have "\<forall>off n rh ec chunk. ioContext w ! i = PendingReceive off n rh \<longrightarrow> c = ReceiveDone ec chunk \<longrightarrow>
      \<not> ec_failed ec \<longrightarrow> length chunk \<le> n"
    using assms(2,3) by auto
  ultimately show ?thesis
    using assms(1) readers_take [OF assms(3)] by (simp add: reading_def reading_taken_def)
qed

lemma reading_received:
  assumes "reading_taken (PendingReceive off n rh) (ReceiveDone ec chunk) w"
    and "OnReceiveComplete b rh off ec chunk (packetStream w) = Inr (s, del, ops)"
  shows "reading (del \<noteq> None) (start_ops ops (w\<lparr>packetStream := s\<rparr>))"
proof -
  have off: "off = readBufferHead (packetStream w)"
    and room: "\<not> ec_failed ec \<Longrightarrow> length chunk \<le> readBufferMaxSize (packetStream w) - readBufferHead (packetStream w)"
    and wf: "stream_wf (packetStream w)" and none: "readers (ioContext w) = 0"
    and m: "\<not> st_mutex (state w)"
    using assms(1) by (auto simp: reading_taken_def)
  from OnReceive_outcome [OF wf, of ec chunk b rh s del ops] room assms(2) off m none no_reader_receive_ok [OF none, of s]
  show ?thesis by (auto simp: reading_def split: if_splits)
qed

lemma droppable_not_receive: "droppable q \<Longrightarrow> receive_ok s q"
  by (cases q) auto

interpretation reader: connection_invariant E session_may reading reading_taken
  for E :: "('z, 'v) env"
proof unfold_locales
  fix w i c now
  assume "reading False w" and "session_may (Completion i c now) w" and "i < length (ioContext w)"
  then show "reading_taken (ioContext w ! i) c ((take_op i w)\<lparr>clock := now\<rparr>)"
    by (rule reading_take_op)
next
  fix off n rh ec chunk s del and w :: "('l, 'cb) connection" and ops :: "'cb op list"
  assume "reading_taken (PendingReceive off n rh) (ReceiveDone ec chunk) w"
    and "OnReceiveComplete (e_build E) rh off ec chunk (packetStream w) = Inr (s, del, ops)"
  then show "reading (del \<noteq> None) (start_ops ops (w\<lparr>packetStream := s\<rparr>))"
    by (rule reading_received)
next
  fix pkt and w :: "('l, 'cb) connection" and h :: "'cb send_handler"
  assume "reading True w" and "handshake_packet pkt h"
  then show "reading False (send_packet pkt h w)"
    by (auto simp: reading_def send_packet_queue elim: handshake_packet.cases)
qed (auto simp: reading_def reading_taken_def to_connected_Inr receive_packets_Inr PostRequest_def
      send_packet_queue reader_send_next stream_room)

lemma reading_start: "reading False (new_Connection E)"
  by (simp add: reading_def new_Connection_def new_TcpPacketStream_def stream_wf_def)

text \<open>
  C7: one session reads safely. In a run in which the application starts a session only when none is
  reading, at most one receive is pending, and its target is the part of the read buffer behind the
  bytes received so far: no receive ever writes outside the buffer or over unread bytes.
\<close>

theorem receives_stay_in_the_buffer:
  assumes "foldR (exec E) es (new_Connection E) = Inr w"
    and "allowed (exec E) session_may es (new_Connection E)"
    and "PendingReceive off n rh \<in> set (ioContext w)"
  shows "off = length (pending_bytes (packetStream w)) \<and> off + n = length (readBuffer (packetStream w))
     \<and> length (filter reader_op (ioContext w)) = 1"
proof -
  from reader.run_inv [OF reading_start assms(2,1)] have r: "reading False w" .
  then have ok: "receive_ok (packetStream w) (PendingReceive off n rh)" and wf: "stream_wf (packetStream w)"
    using assms(3) by (auto simp: reading_def list_all_iff)
  have "filter reader_op (ioContext w) \<noteq> []"
    using assms(3) by (force simp: filter_empty_conv)
  then have "length (filter reader_op (ioContext w)) = 1"
    using r by (cases "filter reader_op (ioContext w)") (simp_all add: reading_def readers_def)
  with ok wf length_pending_bytes [OF wf] show ?thesis by (auto simp: stream_wf_def)
qed

theorem receives_stay_in_the_buffer_witness:
  "0 = length (pending_bytes (packetStream (run_state (handshake_run @ request_run))))
   \<and> 0 + 2048 = length (readBuffer (packetStream (run_state (handshake_run @ request_run))))
   \<and> length (filter reader_op (ioContext (run_state (handshake_run @ request_run)))) = 1"
proof (rule receives_stay_in_the_buffer [OF sample_run_ends])
  show "allowed (exec sample_env) session_may (handshake_run @ request_run) (new_Connection sample_env)"
    by code_simp
  show "PendingReceive 0 2048 PacketsReceived \<in> set (ioContext (run_state (handshake_run @ request_run)))"
    by (simp add: sample_run_state)
qed

end
