(* ===== verification/Connection_Handlers.thy ===== *)
theory Connection_Handlers
  imports Connection_Example
begin

text \<open>
  What the handlers of the connection do: a response answers its request, a posted request is queued,
  refused, dropped or fatal, and a lost connection is reported once.
\<close>

section \<open>Responses\<close>

lemma ProcessPacket_response:
  assumes "st_val (state w) = Connected c"
  shows "ProcessPacket E (NewData_range ((if err then 36 else 4) # encode_id i @ data)) w =
     Inr (ProcessMessage \<lparr>m_type = Response, m_id = i, m_route = [], m_data = data, m_error = err\<rparr> w)"
  using assms by (simp add: ProcessPacket_def NewData_range_def deserialize_plain_response)

text \<open>
  C20: a response answers its request, once. The handler of the request with the number of the
  response is called with the data and with \<open>Ok\<close>, or \<open>ServerError\<close> if the error bit is set; the
  request is no longer in flight, every other one is; the same response again changes nothing.
\<close>

theorem response_answers_request:
  assumes "st_val (state w) = Connected c"
    and "um_find (inFlightRequests w) i = Some req"
    and "p = NewData_range ((if err then 36 else 4) # encode_id i @ data)"
  shows "\<exists>w'. ProcessPacket E p w = Inr w'
     \<and> handlerCalls w' = handlerCalls w @ [(r_handler req, if err then ServerError else Ok, data)]
     \<and> um_find (inFlightRequests w') i = None
     \<and> (\<forall>j. j \<noteq> i \<longrightarrow> um_find (inFlightRequests w') j = um_find (inFlightRequests w) j)
     \<and> ProcessPacket E p w' = Inr w'"
proof -
  let ?m = "\<lparr>m_type = Response, m_id = i, m_route = [], m_data = data, m_error = err\<rparr>"
  let ?w' = "ProcessMessage ?m w"
  have eq: "?w' = erase_request i (call_handler (r_handler req) (if err then ServerError else Ok) data w)"
    using assms(2) by (simp add: ProcessMessage_def)
  have c': "st_val (state ?w') = Connected c"
    using assms(1) by (simp add: eq)
  have gone: "um_find (inFlightRequests ?w') i = None"
    by (simp add: eq um_simps)
  have "ProcessMessage ?m ?w' = ?w'"
    by (subst ProcessMessage_def) (simp add: gone)
  then have "ProcessPacket E p ?w' = Inr ?w'"
    by (simp only: assms(3) ProcessPacket_response [OF c'])
  moreover have "ProcessPacket E p w = Inr ?w'"
    by (simp only: assms(3) ProcessPacket_response [OF assms(1)])
  ultimately show ?thesis
    using gone by (intro exI [of _ ?w']) (simp add: eq um_simps)
qed

theorem response_answers_request_witness:
  "\<exists>w'. ProcessPacket sample_env (NewData_range [4, 1, 55]) (run_state (handshake_run @ request_run)) = Inr w'
     \<and> handlerCalls w' = [(77, Ok, [55])] \<and> um_find (inFlightRequests w') 1 = None"
proof -
  let ?w = "run_state (handshake_run @ request_run)"
  have "st_val (state ?w) = Connected (new_connected (\<lambda>m. m) 30 90 ''json'' [(''r'', 9)] (ExpiresAfter 30) (ExpiresAt 90))"
    and "um_find (inFlightRequests ?w) 1 = Some (new_Request 77 5)"
    by (simp_all add: sample_run_state um_find_def)
  moreover have "NewData_range [4, 1, 55] = NewData_range ((if False then 36 else 4) # encode_id 1 @ [55])"
    by (simp add: encode_id.simps)
  ultimately show ?thesis
    using response_answers_request [of ?w _ 1 "new_Request 77 5" "NewData_range [4, 1, 55]" False "[55]" sample_env]
    by (auto simp: sample_run_state)
qed

section \<open>Posting requests\<close>

text \<open>
  C22: what becomes of a posted request. While not connected, its handler is called at once with
  \<open>NotConnectedError\<close>. While connected, a route outside the dictionary throws on the worker thread;
  otherwise, if the send queue has room, exactly one packet is queued, with the flag, the number and
  the code of the route as its body, and one send task is posted; the data of the request are not in
  the packet. If the queue is full, the number is used up and the handler is dropped.
\<close>

theorem posted_request_outcome:
  assumes "workerThreadId w = Some (e_worker E)"
  shows "RunPostedRequest E (e_worker E) route data timeout cb w =
     (case st_val (state w) of
        Inited \<Rightarrow> Inr (call_handler cb NotConnectedError [] w)
      | Connected c \<Rightarrow>
          (case um_find (routeToCode c) route of
             None \<Rightarrow> Inl OutOfRange
           | Some code \<Rightarrow>
               Inr (if length (packetSendQueue (packetStream w)) < kMaxQueuedPackets
                    then w\<lparr>reqId := reqId w + 1,
                           packetStream := (packetStream w)\<lparr>packetSendQueue := packetSendQueue (packetStream w)
                             @ [NewData_range (1 # encode_id (reqId w) @ [ucast (signed_drop_bit 8 code AND 255), ucast (code AND 255)])]\<rparr>,
                           ioContext := ioContext w
                             @ [PostedSendNext (RequestSent timeout (NewRequest (reqId w) route data) cb)]\<rparr>
                    else w\<lparr>reqId := reqId w + 1\<rparr>)))"
proof (cases "st_val (state w)")
  case Inited
  then show ?thesis by (simp add: RunPostedRequest_def)
next
  case (Connected c)
  show ?thesis
  proof (cases "um_find (routeToCode c) route")
    case None
    with Connected assms show ?thesis
      by (simp add: RunPostedRequest_def Let_def NewData_def Message_SerializeInto_def um_at_conv NewRequest_def)
  next
    case (Some code)
    from serialize_request [OF this, of "reqId w" data "[]"] Connected assms Some show ?thesis
      by (simp add: RunPostedRequest_def Let_def NewData_def send_packet_def SendPacket_def start_ops_def
          NewData_range_def)
  qed
qed

theorem posted_request_outcome_witness:
  "RunPostedRequest sample_env 0 ''nowhere'' [] 5 77 (run_state (handshake_run @ request_run)) = Inl OutOfRange"
proof -
  have "workerThreadId (run_state (handshake_run @ request_run)) = Some (e_worker sample_env)"
    by code_simp
  from posted_request_outcome [OF this, of "''nowhere''" "[]" 5 77] show ?thesis
    by (simp add: sample_run_state new_connected_def um_find_def sample_env_def)
qed

section \<open>Losing the connection\<close>

text \<open>
  C26: a lost connection is reported exactly once. An error in a connected connection sets the state
  back, calls every listener once with the error's message, shuts the socket down and closes it, and
  leaves the requests in flight alone; the packet stream keeps its bytes; a further error or a kick
  then changes nothing.
\<close>

theorem connection_error_reported_once:
  assumes "\<not> st_mutex (state w)" and "IsConnected (state w)"
  shows "\<exists>w'. Connection_ConnectionError E ec w = Inr w' \<and> st_val (state w') = Inited
     \<and> listenerCalls w' = listenerCalls w
         @ map (\<lambda>l. (l, EvConnectionError, ec_message (e_boost_message E) ec)) (el_listeners (eventListeners w))
     \<and> socketCalls w' = socketCalls w @ [SocketShutdown, SocketClose]
     \<and> inFlightRequests w' = inFlightRequests w \<and> handlerCalls w' = handlerCalls w
     \<and> packetStream w' = packetStream w
     \<and> Connection_ConnectionError E ec' w' = Inr w' \<and> KickedFromServer w' = Inr w'"
proof -
  let ?w' = "disconnect (to_inited EvConnectionError (ec_message (e_boost_message E) ec) w)"
  have "Connection_ConnectionError E ec w = Inr ?w'"
    using assms by (simp add: ConnectionError_eq)
  moreover have "\<not> st_mutex (state ?w')" "\<not> IsConnected (state ?w')"
    using assms(1) by (simp_all add: IsConnected_def)
  ultimately show ?thesis
    by (intro exI [of _ ?w'])
      (simp add: ConnectionError_eq KickedFromServer_eq EventListeners_Broadcast_def
        disconnect_def to_inited_def broadcast_def set_state_def SetInited_def TcpPacketStream_Disconnect_def)
qed

theorem connection_error_reported_once_witness:
  "\<exists>w'. Connection_ConnectionError sample_env (make_error_code WrongPacket)
            (run_state (handshake_run @ request_run)) = Inr w'
     \<and> st_val (state w') = Inited
     \<and> Connection_ConnectionError sample_env (make_error_code HeartbeatTimeout) w' = Inr w'"
  using connection_error_reported_once [of "run_state (handshake_run @ request_run)" sample_env
      "make_error_code WrongPacket" "make_error_code HeartbeatTimeout"]
  by (auto simp: sample_run_state IsConnected_def)

end
