(* ===== verification/Connection_Locks.thy ===== *)
theory Connection_Locks
  imports Connection_Example
begin

text \<open>
  The locks. The state's mutex is not recursive, and \<open>HandshakeFailed\<close>, \<open>ConnectionError\<close>,
  \<open>KickedFromServer\<close> and \<open>StartReceivingPackets\<close> take it. No step locks it while it is held, and every
  step releases it: no run of the connection deadlocks on it.
\<close>

section \<open>Both mutexes are free between steps\<close>

definition unlocked :: "bool \<Rightarrow> ('l, 'cb) connection \<Rightarrow> bool" where
  "unlocked k w \<longleftrightarrow> \<not> st_mutex (state w) \<and> \<not> el_mutex (eventListeners w)"

interpretation locks: connection_invariant E "\<lambda>_ _. True" unlocked "\<lambda>_ _. unlocked False"
  for E :: "('z, 'v) env"
  by unfold_locales
    (auto simp: unlocked_def to_connected_Inr receive_packets_Inr PostRequest_def EventListeners_Add_def)

section \<open>No step deadlocks\<close>

definition lock_free :: "'a result \<Rightarrow> bool" where
  "lock_free r \<longleftrightarrow> r \<noteq> Inl Deadlock"

lemma lock_free_Inr [simp]: "lock_free (Inr x)"
  by (simp add: lock_free_def)

lemma lock_free_Inl [simp]: "lock_free (Inl e) \<longleftrightarrow> e \<noteq> Deadlock"
  by (simp add: lock_free_def)

lemma lock_free_bind [intro]:
  "lock_free r \<Longrightarrow> (\<And>x. r = Inr x \<Longrightarrow> lock_free (f x)) \<Longrightarrow> lock_free (bindR r f)"
  by (cases r) simp_all

lemma lock_free_basic [simp]:
  "lock_free (cassert b P what)" "lock_free (rd v i)" "lock_free (rd_range v i n)" "lock_free (um_at m k)"
  by (simp_all add: cassert_def rd_def rd_range_def um_at_def split: option.split)

lemma lock_free_bindI: "lock_free r \<Longrightarrow> (\<And>x. lock_free (f x)) \<Longrightarrow> lock_free (bindR r f)"
  by (rule lock_free_bind)

lemma lock_free_decode_id [simp]: "lock_free (decode_id_loop buf i j n)"
proof (induction buf i j n rule: decode_id_loop.induct)
  case (1 buf offset i acc)
  then show ?case by (subst decode_id_loop.simps) (simp add: Let_def)
qed

lemma lock_free_read [simp]:
  "lock_free (read_route buf c flag off)"
  "lock_free (inflated_bytes out n)"
  "lock_free (read_data Z buf flag off)"
  by (auto simp: read_route_def inflated_bytes_def read_data_def Let_def
      intro!: lock_free_bindI split: option.split)

lemma lock_free_Deserialize [simp]: "lock_free (Deserialize Z buf c)"
  by (auto simp: Deserialize_def Let_def intro!: lock_free_bindI split: option.split)

lemma lock_free_parse_round [simp]: "lock_free (parse_round b buf n off)"
  by (auto simp: parse_round_def Let_def intro!: lock_free_bindI split: option.split PacketType.split)

lemma parse_loop_lock_free: "parse_loop fuel b buf n off ps = Some r \<Longrightarrow> lock_free r"
proof (induction fuel arbitrary: off ps)
  case (Suc fuel)
  then show ?case
    using lock_free_parse_round [of b buf n off]
    by (auto simp: parse_loop.simps simp del: lock_free_parse_round split: sum.splits round_result.splits)
qed (simp add: parse_loop.simps)

lemma lock_free_ParsePackets [simp]: "lock_free (ParsePacketsFromReadBuffer b s)"
  using parse_loop_lock_free [of "Suc (readBufferHead s)" b "readBuffer s" "readBufferHead s" 0 "[]"]
  by (auto simp: ParsePacketsFromReadBuffer_def split: option.split sum.split)

lemma lock_free_stream [simp]:
  "lock_free (ReadToBuffer h s)"
  "lock_free (ReceivePackets h s)"
  "lock_free (SendNextPacket b sh s)"
  by (auto simp: ReceivePackets_def ReadToBuffer_def SendNextPacket_def Let_def
      intro!: lock_free_bindI split: list.split)

lemma lock_free_OnReceive [simp]: "lock_free (OnReceiveComplete b h start ec chunk s)"
  using lock_free_ParsePackets [of b "s\<lparr>readBuffer := overwrite start chunk (readBuffer s),
                     readBufferHead := readBufferHead s + length chunk\<rparr>"]
  by (auto simp: OnReceiveComplete_def Let_def simp del: lock_free_ParsePackets
      intro!: lock_free_bindI split: sum.split fault.split)

lemma lock_free_json [simp]:
  "lock_free (json_HasMember b J v k)"
  "lock_free (parse_handshake b J resp)"
  by (auto simp: json_HasMember_def parse_handshake_def intro!: lock_free_bindI split: option.split)

lemma lock_free_NewData [simp]: "lock_free (NewData m d)"
  by (auto simp: NewData_def Message_SerializeInto_def Let_def intro!: lock_free_bindI)

lemma lock_free_SetConnected [simp]: "lock_free (to_connected E interval ser routes w)"
  by (auto simp: to_connected_def SetConnected_def)

lemma lock_free_receive_packets [simp]: "lock_free (receive_packets h w)"
  by (auto simp: receive_packets_def intro!: lock_free_bindI)

section \<open>The handlers\<close>

lemma lock_free_failures:
  assumes "unlocked k w"
  shows "lock_free (HandshakeFailed E ec w)" and "lock_free (Connection_ConnectionError E ec w)"
    and "lock_free (KickedFromServer w)"
  using assms by (simp_all add: unlocked_def HandshakeFailed_eq ConnectionError_eq KickedFromServer_eq)

lemma lock_free_ProcessPacket: "unlocked k w \<Longrightarrow> lock_free (ProcessPacket E p w)"
  by (auto simp: ProcessPacket_def lock_free_failures intro!: lock_free_bindI
      split: PacketType.split StateType.split option.split)

lemma lock_free_ProcessPackets: "unlocked k w \<Longrightarrow> lock_free (foldR (ProcessPacket E) ps w)"
proof (induction ps arbitrary: w)
  case (Cons p ps)
  then show ?case
    by (auto intro!: lock_free_bind lock_free_ProcessPacket [of k] dest: locks.ProcessPacket_inv)
qed simp

lemma lock_free_receive_handlers:
  assumes "unlocked k w"
  shows "lock_free (SendHandshakeAck E resp w)" and "lock_free (OnPacketsReceived E ec ps w)"
    and "lock_free (OnHandshakeResponse E ec ps w)"
proof -
  show ack: "lock_free (SendHandshakeAck E resp w)" for resp
    using lock_free_failures [OF assms]
    by (auto simp: SendHandshakeAck_def intro!: lock_free_bindI split: option.split)
  show "lock_free (OnPacketsReceived E ec ps w)"
    using lock_free_failures [OF assms] lock_free_ProcessPackets [OF assms]
    by (auto simp: OnPacketsReceived_def intro!: lock_free_bindI)
  show "lock_free (OnHandshakeResponse E ec ps w)"
    using lock_free_failures [OF assms] ack
    by (auto simp: OnHandshakeResponse_def intro!: lock_free_bindI split: list.split option.split)
qed

lemma lock_free_send_handler:
  assumes "unlocked k w"
  shows "lock_free (run_send_handler E h ec w)"
proof -
  have "\<not> st_mutex (state w)" using assms by (simp add: unlocked_def)
  then show ?thesis
    using lock_free_failures [OF assms]
    by (cases h) (auto simp: run_send_handler_def OnRequestSent_def OnHandshakeSent_def
        ReceiveHandshakeResponse_def OnHandshakeAckSent_def OnHeartbeatSent_def StartReceivingPackets_eq Let_def
        intro!: lock_free_bindI)
qed

lemma lock_free_worker:
  assumes "unlocked k w"
  shows "lock_free (RunPostedRequest E tid r d t cb w)" and "lock_free (OnConnect E tid ec w)"
    and "lock_free (OnHeartbeatTimer ec w)" and "lock_free (OnHeartbeatTimeout E ec w)"
    and "lock_free (OnSendComplete update_stream (run_send_handler E h) bid ec n w)"
    and "lock_free (run_receive_handler E rh ec ps w)"
  using lock_free_failures [OF assms] lock_free_send_handler [OF assms] lock_free_receive_handlers [OF assms]
  by (auto simp: RunPostedRequest_def OnConnect_def SendHandshake_def OnHeartbeatTimer_def HeartbeatTick_def
      heartbeatTick_def OnHeartbeatTimeout_def OnSendComplete_def run_receive_handler_def Let_def
      intro!: lock_free_bindI split: StateType.split receive_handler.split)

lemma lock_free_complete:
  assumes "unlocked False w" and "complete E p c w = Some r"
  shows "lock_free r"
proof -
  have recv: "lock_free (run_receive_handler E rh ec ps (start_ops ops (w\<lparr>packetStream := s\<rparr>)))" for rh ec ps ops s
    using assms(1) by (intro lock_free_worker(6) [of False]) (simp add: unlocked_def)
  show ?thesis
    using assms(2) lock_free_worker [OF assms(1)] recv
    by (cases "(E, p, c, w)" rule: complete.cases)
      (auto simp: Let_def intro!: lock_free_bindI split: option.split)
qed

text \<open>
  C15: no run deadlocks. From a fresh connection, whatever the application and the environment do,
  both mutexes are free between steps and no step locks a mutex that is held (for callbacks that do
  not call back into the connection's locked sections).
\<close>

theorem no_deadlock:
  assumes "foldR (exec E) es (new_Connection E) = Inr w"
  shows "\<not> st_mutex (state w) \<and> \<not> el_mutex (eventListeners w) \<and> exec E ev w \<noteq> Inl Deadlock"
proof -
  have "unlocked False (new_Connection E)" by (simp add: unlocked_def new_Connection_def)
  from locks.run_inv [OF this _ assms] have u: "unlocked False w" by simp
  have "lock_free (exec E ev w)"
  proof (cases ev)
    case (UserStart tid a)
    then show ?thesis
      by (auto simp: Start_def TcpPacketStream_Connect_def lock_free_def bindR_eq_Inl cassert_def
          split: sum.splits fault.splits option.splits if_splits)
  next
    case (Completion i c now)
    have "unlocked False ((take_op i w)\<lparr>clock := now\<rparr>)" using u by (simp add: unlocked_def)
    with Completion lock_free_complete show ?thesis by (auto split: option.split)
  qed (use u in \<open>simp_all add: unlocked_def AddEventListener_def\<close>)
  with u show ?thesis by (simp add: unlocked_def lock_free_def)
qed

theorem no_deadlock_witness:
  "exec sample_env (Completion 2 (ReceiveDone (make_error_code WrongPacket) []) 0)
     (run_state (handshake_run @ request_run)) \<noteq> Inl Deadlock"
  using no_deadlock [OF sample_run_ends] by blast

end
