(* ===== verification/Connection_Shutdown.thy ===== *)
theory Connection_Shutdown
  imports Connection_Events
begin

text \<open>
  The life of the worker thread: \<^verbatim>\<open>StartWorkerThread\<close> and the destructor of \<^verbatim>\<open>Connection\<close>. The thread
  runs the I/O context; once the destructor has dropped the work object, \<^verbatim>\<open>io_context::run\<close>
  returns as soon as no operation is pending, and only then does the \<^verbatim>\<open>join\<close> of the destructor.
\<close>

section \<open>The worker thread\<close>

text \<open>
  \<^verbatim>\<open>io_context::run\<close> without a work object, driven by the completions the environment delivers:
  it returns when nothing is pending, and has not returned (\<open>None\<close>) when the completions are used up
  with operations still pending. A fault of a closure ends the thread.
\<close>

fun io_context_run ::
  "('z, 'v) env \<Rightarrow> (nat \<times> completion \<times> int) list \<Rightarrow> ('l, 'cb) connection \<Rightarrow> ('l, 'cb) connection result option"
where
  "io_context_run E [] w = (if ioContext w = [] then Some (Inr w) else None)"
| "io_context_run E ((i, c, now) # cs) w =
     (if ioContext w = [] then Some (Inr w)
      else (case exec E (Completion i c now) w of
              Inl e \<Rightarrow> Some (Inl e)
            | Inr w' \<Rightarrow> io_context_run E cs w'))"

definition StartWorkerThread ::
  "('z, 'v) env \<Rightarrow> nat \<Rightarrow> (nat \<times> completion \<times> int) list \<Rightarrow> ('l, 'cb) connection \<Rightarrow> ('l, 'cb) connection result option"
where
  "StartWorkerThread E tid cs w = io_context_run E cs (w\<lparr>workerThreadId := Some tid\<rparr>)"

text \<open>
  The destructor: \<^verbatim>\<open>_work.reset()\<close>, then \<^verbatim>\<open>join\<close>; the value is the state in which it returns.
  The thread is the one that \<^verbatim>\<open>StartWorkerThread\<close> has set up.
\<close>

definition Connection_destructor ::
  "('z, 'v) env \<Rightarrow> (nat \<times> completion \<times> int) list \<Rightarrow> ('l, 'cb) connection \<Rightarrow> ('l, 'cb) connection result option"
where
  "Connection_destructor E cs w = io_context_run E cs w"

section \<open>When the destructor returns\<close>

abbreviation (input) completions :: "(nat \<times> completion \<times> int) list \<Rightarrow> ('l, 'cb) event list" where
  "completions cs \<equiv> map (\<lambda>(i, c, now). Completion i c now) cs"

lemma io_context_run_returns:
  assumes "io_context_run E cs w = Some (Inr w')"
  shows "\<exists>k. foldR (exec E) (completions (take k cs)) w = Inr w' \<and> ioContext w' = []"
  using assms
proof (induction E cs w rule: io_context_run.induct)
  case (1 E w)
  then show ?case by (simp split: if_splits)
next
  case (2 E i c now cs w)
  show ?case
  proof (cases "ioContext w = []")
    case True
    with 2(2) show ?thesis by (intro exI [of _ 0]) simp
  next
    case False
    with 2(2) obtain v where v: "exec E (Completion i c now) w = Inr v" "io_context_run E cs v = Some (Inr w')"
      by (auto split: sum.splits)
    from 2(1) [OF False v] obtain k where "foldR (exec E) (completions (take k cs)) v = Inr w'" "ioContext w' = []"
      by blast
    with v show ?thesis by (intro exI [of _ "Suc k"]) (simp del: exec.simps)
  qed
qed

text \<open>
  C19: the destructor of a connection returns only when the connection is lost. It returns at once if
  nothing is pending; but in every reachable state, and whatever completions follow in which Asio
  cancels no wait for the next heartbeat by itself, it returns only in a state that is not connected
  and has nothing pending. So a client that is connected cannot be destroyed while the server keeps the
  connection up.
\<close>

theorem destructor_waits_for_disconnect:
  assumes "foldR (exec E) es (new_Connection E) = Inr w"
    and "allowed (exec E) tick_may es (new_Connection E)"
    and "allowed (exec E) tick_may (completions cs) w"
  shows "(ioContext w = [] \<longrightarrow> Connection_destructor E cs w = Some (Inr w))
     \<and> (\<forall>w'. Connection_destructor E cs w = Some (Inr w') \<longrightarrow> \<not> IsConnected (state w') \<and> ioContext w' = [])"
proof (intro conjI impI allI)
  show "Connection_destructor E cs w = Some (Inr w)" if "ioContext w = []"
    using that by (cases cs rule: remdups_adj.cases) (auto simp: Connection_destructor_def)
  have inv: "beating False w"
    by (rule heartbeats.run_inv [OF beating_start assms(2,1)])
  fix w' assume "Connection_destructor E cs w = Some (Inr w')"
  then obtain k where run: "foldR (exec E) (completions (take k cs)) w = Inr w'" and "ioContext w' = []"
    unfolding Connection_destructor_def by (auto dest: io_context_run_returns)
  moreover have "beating False w'"
    using heartbeats.run_inv [OF inv _ run] allowed_take [OF assms(3), of k] by (simp add: take_map)
  ultimately show "\<not> IsConnected (state w')" and "ioContext w' = []"
    by (auto simp: beating_def)
qed

text \<open>
  An example: the server kicks the client, the cancelled waits end, the request in flight times out
  and the last receive fails; then the destructor returns.
\<close>

definition shutdown_run :: "(nat \<times> completion \<times> int) list" where
  "shutdown_run =
     [(2, ReceiveDone ec_success [5, 0, 0, 0], 1), (0, WaitDone (make_error_code HeartbeatTimeout), 1),
      (0, WaitDone (make_error_code HeartbeatTimeout), 1), (0, WaitDone ec_success, 1),
      (0, ReceiveDone (make_error_code WrongPacket) [], 1)]"

theorem destructor_waits_for_disconnect_witness:
  "\<exists>w'. Connection_destructor sample_env shutdown_run (run_state (handshake_run @ request_run)) = Some (Inr w')
     \<and> \<not> IsConnected (state w') \<and> ioContext w' = []"
proof -
  let ?w = "run_state (handshake_run @ request_run)"
  have "case Connection_destructor sample_env shutdown_run ?w of Some (Inr w') \<Rightarrow> True | _ \<Rightarrow> False"
    by code_simp
  then obtain w' where "Connection_destructor sample_env shutdown_run ?w = Some (Inr w')"
    by (auto split: option.splits sum.splits)
  moreover have "allowed (exec sample_env) tick_may (handshake_run @ request_run) (new_Connection sample_env)"
    by code_simp
  moreover have "allowed (exec sample_env) tick_may (completions shutdown_run) ?w"
    by code_simp
  ultimately show ?thesis
    using destructor_waits_for_disconnect [OF sample_run_ends, of shutdown_run] by blast
qed

end
