(* ===== verification/Session_Spec.thy ===== *)
theory Session_Spec
  imports Events
begin

text \<open>
  What the library promises its application, without sockets, packets or timers: a session that is
  up or down, the requests that are still open, the answers given to request handlers and the events
  told to listeners, both in order. The connection is shown to refine it.
\<close>

record ('l, 'cb) session =
  s_up :: bool
  s_open :: "'cb multiset"
  s_listeners :: "'l list"
  s_answers :: "('cb \<times> RequestStatus \<times> bytes) list"
  s_told :: "('l \<times> Event \<times> string) list"

definition session_start :: "('l, 'cb) session" where
  "session_start = \<lparr>s_up = False, s_open = {#}, s_listeners = [], s_answers = [], s_told = []\<rparr>"

text \<open>A request is answered: it is open no more.\<close>

definition answer :: "'cb \<Rightarrow> RequestStatus \<Rightarrow> bytes \<Rightarrow> ('l, 'cb) session \<Rightarrow> ('l, 'cb) session" where
  "answer cb status d s = s\<lparr>s_open := s_open s - {#cb#}, s_answers := s_answers s @ [(cb, status, d)]\<rparr>"

text \<open>Every listener is told, in the order of registration.\<close>

definition tell :: "Event \<Rightarrow> string \<Rightarrow> ('l, 'cb) session \<Rightarrow> ('l, 'cb) session" where
  "tell ev msg s = s\<lparr>s_told := s_told s @ map (\<lambda>l. (l, ev, msg)) (s_listeners s)\<rparr>"

inductive session_step :: "('l, 'cb) session \<Rightarrow> ('l, 'cb) session \<Rightarrow> bool" where
  listen: "session_step s (s\<lparr>s_listeners := s_listeners s @ [l]\<rparr>)"
| post: "session_step s (s\<lparr>s_open := add_mset cb (s_open s)\<rparr>)"
| refused: "\<not> s_up s \<Longrightarrow> cb \<in># s_open s \<Longrightarrow> session_step s (answer cb NotConnectedError [] s)"
| answered: "s_up s \<Longrightarrow> cb \<in># s_open s \<Longrightarrow> status \<in> {Ok, ServerError} \<Longrightarrow>
    session_step s (answer cb status d s)"
| timed_out: "cb \<in># s_open s \<Longrightarrow> session_step s (answer cb Timeout [] s)"
| not_sent: "cb \<in># s_open s \<Longrightarrow> session_step s (answer cb InternalError [] s)"
| established: "session_step s (tell EvConnected ''Connection successful'' (s\<lparr>s_up := True\<rparr>))"
| not_established: "session_step s (tell EvConnectionFailed msg (s\<lparr>s_up := False\<rparr>))"
| lost: "s_up s \<Longrightarrow> ev \<in> {EvConnectionError, EvKicked} \<Longrightarrow> session_step s (tell ev msg (s\<lparr>s_up := False\<rparr>))"

section \<open>What follows from the specification alone\<close>

text \<open>The requests posted so far are those open and those answered, however the session goes.\<close>

lemma session_step_answers:
  "session_step s s' \<Longrightarrow> \<exists>as. s_answers s' = s_answers s @ as \<and> (\<forall>(cb, status, d) \<in> set as. status \<noteq> Reset)"
  by (induction rule: session_step.induct) (auto simp: answer_def tell_def)

lemma session_never_resets:
  "session_step\<^sup>*\<^sup>* s s' \<Longrightarrow> \<exists>as. s_answers s' = s_answers s @ as \<and> (\<forall>(cb, status, d) \<in> set as. status \<noteq> Reset)"
proof (induction rule: rtranclp_induct)
  case (step t u)
  then obtain as bs where "s_answers t = s_answers s @ as" "s_answers u = s_answers t @ bs"
    "\<forall>(cb, status, d) \<in> set as. status \<noteq> Reset" "\<forall>(cb, status, d) \<in> set bs. status \<noteq> Reset"
    using session_step_answers [of t u] by blast
  then show ?case by (intro exI [of _ "as @ bs"]) auto
qed simp

end
