(* ===== verification/Connection_Refinement.thy ===== *)
theory Connection_Refinement
  imports Connection_Requests Session_Spec
begin

text \<open>
  The connection refines the session: every step of the connection is, seen through \<open>session_of\<close>,
  some steps of the specification (often none). The simulation is an invariant of the connection, so
  that it is proved effect by effect through the contract \<open>connection_invariant\<close>.
\<close>

section \<open>The abstraction\<close>

definition open_requests :: "('l, 'cb) connection \<Rightarrow> 'cb multiset" where
  "open_requests w = ops_sum op_handlers (ioContext w)
     + image_mset r_handler (image_mset snd (mset (inFlightRequests w)))"

definition session_of :: "('l, 'cb) connection \<Rightarrow> ('l, 'cb) session" where
  "session_of w =
     \<lparr>s_up = IsConnected (state w), s_open = open_requests w,
      s_listeners = el_listeners (eventListeners w), s_answers = handlerCalls w, s_told = listenerCalls w\<rparr>"

text \<open>The abstraction while an operation that holds the handlers \<open>hs\<close> is taken off the list.\<close>

definition holding :: "'cb multiset \<Rightarrow> ('l, 'cb) session \<Rightarrow> ('l, 'cb) session" where
  "holding hs s = s\<lparr>s_open := hs + s_open s\<rparr>"

lemma holding_simps [simp]:
  "holding {#} s = s"
  "s_up (holding hs s) = s_up s" "s_open (holding hs s) = hs + s_open s"
  "s_listeners (holding hs s) = s_listeners s" "s_answers (holding hs s) = s_answers s"
  "s_told (holding hs s) = s_told s"
  by (simp_all add: holding_def)

lemma session_of_simps [simp]:
  "s_up (session_of w) = IsConnected (state w)" "s_open (session_of w) = open_requests w"
  "s_listeners (session_of w) = el_listeners (eventListeners w)"
  "s_answers (session_of w) = handlerCalls w" "s_told (session_of w) = listenerCalls w"
  by (simp_all add: session_of_def)

lemma session_eqI:
  assumes "s_up s = s_up t" "s_open s = s_open t" "s_listeners s = s_listeners t"
    "s_answers s = s_answers t" "s_told s = s_told t"
  shows "s = (t :: ('l, 'cb) session)"
  using assms by (cases s; cases t) simp

lemma open_requests_simps [simp]:
  "open_requests (start_ops ops w) = ops_sum op_handlers ops + open_requests w"
  "open_requests (call_handler cb status d w) = open_requests w"
  "open_requests (disconnect w) = open_requests w"
  "open_requests (broadcast ev msg w) = open_requests w"
  "open_requests (update_stream g w) = open_requests w"
  "open_requests (to_inited ev msg w) = open_requests w"
  "open_requests (w\<lparr>packetStream := s\<rparr>) = open_requests w"
  "open_requests (w\<lparr>eventListeners := el\<rparr>) = open_requests w"
  "open_requests (w\<lparr>postedRequests := rs\<rparr>) = open_requests w"
  "open_requests (w\<lparr>reqId := n\<rparr>) = open_requests w"
  "open_requests (w\<lparr>clock := now\<rparr>) = open_requests w"
  "open_requests (set_state (\<lambda>(st, ops). ExtendHeartbeatTimeout now st ops) w) = open_requests w"
  "open_requests (set_state (\<lambda>(st, ops). rearm_heartbeat st ops) w) = open_requests w"
  "open_requests (send_packet p h w) =
     (if length (packetSendQueue (packetStream w)) < kMaxQueuedPackets
      then op_handlers (PostedSendNext h) + open_requests w else open_requests w)"
  "open_requests (w\<lparr>inFlightRequests := um_insert i req (inFlightRequests w)\<rparr>) =
     (if um_find (inFlightRequests w) i = None then add_mset (r_handler req) (open_requests w) else open_requests w)"
  by (simp_all add: open_requests_def send_packet_queue in_flight_insert)

lemma open_requests_take_op [simp]:
  "i < length (ioContext w) \<Longrightarrow> op_handlers (ioContext w ! i) + open_requests (take_op i w) = open_requests w"
  by (simp add: open_requests_def)

lemma open_requests_done:
  assumes "um_find (inFlightRequests w) i = Some req" and "um_wf (inFlightRequests w)"
  shows "r_handler req \<in># open_requests w"
    and "open_requests (erase_request i (call_handler (r_handler req) status d w)) = open_requests w - {#r_handler req#}"
  by (simp_all add: open_requests_def in_flight_erase(1) [OF assms(2,1)])

section \<open>Effects are steps of the session\<close>

lemma holding_holding [simp]: "holding a (holding b s) = holding (a + b) s"
  by (simp add: holding_def ac_simps)

lemma session_of_effects [simp]:
  "session_of (disconnect w) = session_of w"
  "session_of (update_stream g w) = session_of w"
  "session_of (w\<lparr>packetStream := s\<rparr>) = session_of w"
  "session_of (w\<lparr>postedRequests := rs\<rparr>) = session_of w"
  "session_of (w\<lparr>reqId := n\<rparr>) = session_of w"
  "session_of (w\<lparr>clock := now\<rparr>) = session_of w"
  "session_of (set_state (\<lambda>(st, ops). ExtendHeartbeatTimeout now st ops) w) = session_of w"
  "session_of (set_state (\<lambda>(st, ops). rearm_heartbeat st ops) w) = session_of w"
  "session_of (start_ops ops w) = holding (ops_sum op_handlers ops) (session_of w)"
  "session_of (send_packet p h w) =
     (if length (packetSendQueue (packetStream w)) < kMaxQueuedPackets
      then holding (op_handlers (PostedSendNext h)) (session_of w) else session_of w)"
  "session_of (w\<lparr>inFlightRequests := um_insert i req (inFlightRequests w)\<rparr>) =
     (if um_find (inFlightRequests w) i = None then holding {#r_handler req#} (session_of w) else session_of w)"
  by (rule session_eqI; simp)+

lemma session_of_take_op [simp]:
  "i < length (ioContext w) \<Longrightarrow> holding (op_handlers (ioContext w ! i)) (session_of (take_op i w)) = session_of w"
  by (rule session_eqI) simp_all

text \<open>The effects that the application can see.\<close>

lemma step_posted: "session_step (session_of w) (session_of (PostRequest r d t cb w))"
  using session_step.post [of "session_of w" cb] by (simp add: PostRequest_def holding_def)

lemma step_listening:
  "session_step (session_of w) (session_of (w\<lparr>eventListeners := EventListeners_Add l (eventListeners w)\<rparr>))"
proof -
  have "session_of (w\<lparr>eventListeners := EventListeners_Add l (eventListeners w)\<rparr>) =
     (session_of w)\<lparr>s_listeners := s_listeners (session_of w) @ [l]\<rparr>"
    by (rule session_eqI) (simp_all add: EventListeners_Add_def)
  then show ?thesis using session_step.listen [of "session_of w" l] by simp
qed

lemma step_left:
  assumes "ev = EvConnectionFailed \<or> IsConnected (state w) \<and> ev \<in> {EvConnectionError, EvKicked}"
  shows "session_step (session_of w) (session_of (to_inited ev msg w))"
proof -
  have "session_of (to_inited ev msg w) = tell ev msg ((session_of w)\<lparr>s_up := False\<rparr>)"
    by (rule session_eqI) (simp_all add: tell_def EventListeners_Broadcast_def IsConnected_def)
  then show ?thesis
    using assms session_step.not_established [of "session_of w" msg] session_step.lost [of "session_of w" ev msg]
    by auto
qed

lemma step_connected:
  assumes "to_connected E interval ser routes w = Inr w'"
  shows "session_step (session_of w) (session_of w')"
proof -
  have "session_of w' = tell EvConnected ''Connection successful'' ((session_of w)\<lparr>s_up := True\<rparr>)"
    using assms
    by (intro session_eqI) (auto simp: tell_def to_connected_Inr EventListeners_Broadcast_def open_requests_def)
  then show ?thesis using session_step.established [of "session_of w"] by simp
qed

lemma step_done:
  assumes "um_find (inFlightRequests w) i = Some req" and "um_wf (inFlightRequests w)"
    and "IsConnected (state w) \<and> status \<in> {Ok, ServerError} \<or> status = Timeout \<and> d = []"
  shows "session_step (session_of w) (session_of (erase_request i (call_handler (r_handler req) status d w)))"
proof -
  have "session_of (erase_request i (call_handler (r_handler req) status d w)) =
      answer (r_handler req) status d (session_of w)"
    by (rule session_eqI) (simp_all add: answer_def open_requests_done(2) [OF assms(1,2)])
  then show ?thesis
    using assms(3) open_requests_done(1) [OF assms(1,2)]
    by (auto intro: session_step.answered session_step.timed_out)
qed

lemma step_called:
  assumes "status = NotConnectedError \<and> \<not> IsConnected (state w) \<or> status = InternalError"
  shows "session_step (holding {#cb#} (session_of w)) (session_of (call_handler cb status [] w))"
proof -
  have "session_of (call_handler cb status [] w) = answer cb status [] (holding {#cb#} (session_of w))"
    by (rule session_eqI) (simp_all add: answer_def)
  then show ?thesis using assms by (auto intro: session_step.refused session_step.not_sent)
qed

section \<open>The simulation\<close>

definition simulated :: "('l, 'cb) session \<Rightarrow> bool \<Rightarrow> ('l, 'cb) connection \<Rightarrow> bool" where
  "simulated s k w \<longleftrightarrow> conserved k w \<and> session_step\<^sup>*\<^sup>* s (session_of w)"

definition simulated_taken :: "('l, 'cb) session \<Rightarrow> 'cb op \<Rightarrow> completion \<Rightarrow> ('l, 'cb) connection \<Rightarrow> bool" where
  "simulated_taken s q c w \<longleftrightarrow> conserved_taken q c w \<and> session_step\<^sup>*\<^sup>* s (holding (op_handlers q) (session_of w))"

lemma conserved_um_wf: "conserved k w \<Longrightarrow> um_wf (inFlightRequests w)"
  by (auto simp: conserved_def intro: unique_ids_um_wf)

lemmas simulated_defs = simulated_def simulated_taken_def
lemmas then_step = rtranclp.rtrancl_into_rtrancl [of session_step]

interpretation simulation: connection_invariant E room_may "simulated s" "simulated_taken s"
  for E :: "('z, 'v) env" and s
proof (unfold_locales, goal_cases)
  case (3 w i c now) then show ?case
    using requests.taken [of w i c now E] by (simp add: simulated_defs)
next
  case (4 q c w) then show ?case
    using requests.dropped [of q c w] by (simp add: simulated_defs op_counts_droppable)
next
  case (6 w r d t cb) then show ?case
    by (auto simp: simulated_defs intro: requests.user_request then_step step_posted)
next
  case (7 w l) then show ?case
    by (auto simp: simulated_defs intro: requests.user_listener then_step step_listening)
next
  case (8 k w ev msg) then show ?case
    unfolding simulated_defs by (blast intro: requests.left then_step step_left)
next
  case (10 bid buf interval ser routes ec n w w') then show ?case
    using requests.entered [of bid buf interval ser routes ec n w E w'] step_connected [of E interval ser routes w w']
    by (auto simp: simulated_defs intro: then_step)
next
  case (16 off n rh ec chunk w st del ops) then show ?case
    using requests.received [of off n rh ec chunk w E st del ops]
    by (simp add: simulated_defs ops_sum_received)
next
  case (19 r d t cb w) then show ?case
    using requests.request_refused [of r d t cb w] step_called [of NotConnectedError w cb]
    by (auto simp: simulated_defs IsConnected_def intro: then_step)
next
  case (20 r d t cb w con pkt) then show ?case
    using requests.request_queued [of r d t cb w con pkt] by (auto simp: simulated_defs conserved_taken_def)
next
  case (21 bid buf t m cb c w) then show ?case
    using requests.request_failed [of bid buf t m cb c w] step_called [of InternalError w cb]
    by (auto simp: simulated_defs intro: then_step)
next
  case (22 bid buf t m cb c w) then show ?case
    using requests.request_in_flight [of bid buf t m cb c w E]
    by (auto simp: simulated_defs conserved_taken_def dest: unique_ids_not_in_flight)
next
  case (23 k w rid req status d) then show ?case
    using requests.request_done [of k w rid req status d] conserved_um_wf [of k w] step_done [of w rid req status d]
    by (auto simp: simulated_defs intro: then_step)
next
  case (24 rid sp ec w req) then show ?case
    using requests.request_timed_out [of rid sp ec w req] step_done [of w rid req Timeout "[]"]
    by (auto simp: simulated_defs conserved_taken_def unique_ids_um_wf intro: then_step)
qed (auto simp: simulated_defs op_counts_handshake receive_packets_Inr ops_sum_received ops_sum_send_started
      intro: requests.user_start requests.disconnected requests.extended requests.ticked
        requests.tick_ignored requests.handshake_sent requests.receiving requests.released
        requests.send_started requests.request_timer_ignored dest: requests.unlocked requests.not_started)

section \<open>The refinement\<close>

lemma session_of_start: "session_of (new_Connection E) = session_start"
  by (rule session_eqI) (simp_all add: session_start_def new_Connection_def open_requests_def IsConnected_def)



end
