(* ===== verification/Connection_Types.thy ===== *)
theory Connection_Types
  imports Connection_Requests Connection_Streams Connection_Locks
begin

text \<open>
  The types of the connection: a well-formedness predicate on everything the class holds, kept by every
  step. \<^verbatim>\<open>Connection_Faults\<close> concludes from it which steps can go wrong.
\<close>

section \<open>Well-formed connections\<close>

text \<open>What the members of \<^verbatim>\<open>Connected\<close> have to do with each other.\<close>

definition connected_wf :: "('z, 'v) env \<Rightarrow> connected \<Rightarrow> bool" where
  "connected_wf E c \<longleftrightarrow>
     heartbeatTimeoutSeconds c = heartbeatInterval c * kHeartbeatFactor
     \<and> in_int64 (heartbeatInterval c * kHeartbeatFactor)
     \<and> heartbeatTimer c = ExpiresAfter (heartbeatInterval c)
     \<and> codeToRoute c = invert_routes (e_order E (routeToCode c))"

definition connection_wf :: "('z, 'v) env \<Rightarrow> ('l, 'cb) connection \<Rightarrow> bool" where
  "connection_wf E w \<longleftrightarrow>
     (case st_val (state w) of Inited \<Rightarrow> True | Connected c \<Rightarrow> connected_wf E c)
     \<and> \<not> st_mutex (state w) \<and> \<not> el_mutex (eventListeners w)
     \<and> workerThreadId w = Some (e_worker E)
     \<and> um_wf (inFlightRequests w) \<and> writes_wf (packetStream w)
     \<and> readBufferMaxSize (packetStream w) = 2048"

text \<open>Fewer than \<open>2 ^ 32 - 2\<close> packets are written, so that the numbers of the writes do not come round.\<close>

fun writes_may :: "('l, 'cb) event \<Rightarrow> ('l, 'cb) connection \<Rightarrow> bool" where
  "writes_may (Completion i c now) w \<longleftrightarrow>
     (i < length (ioContext w) \<longrightarrow>
      (case ioContext w ! i of PostedSendNext _ \<Rightarrow> uint (writeId (packetStream w)) + 2 < 2 ^ 32 | _ \<Rightarrow> True))"
| "writes_may _ w \<longleftrightarrow> True"

definition connection_wf_taken :: "('z, 'v) env \<Rightarrow> 'cb op \<Rightarrow> completion \<Rightarrow> ('l, 'cb) connection \<Rightarrow> bool" where
  "connection_wf_taken E q c w \<longleftrightarrow> connection_wf E w
     \<and> (\<forall>h. q = PostedSendNext h \<longrightarrow> unat (writeId (packetStream w)) + 2 < 2 ^ 32)"

lemma connected_wf_state [simp]:
  "(case st_val (fst (ExtendHeartbeatTimeout now st ops)) of Inited \<Rightarrow> True | Connected c \<Rightarrow> connected_wf E c) =
     (case st_val st of Inited \<Rightarrow> True | Connected c \<Rightarrow> connected_wf E c)"
  "(case st_val st of Inited \<Rightarrow> True | Connected c \<Rightarrow> connected_wf E c) \<Longrightarrow>
     (case st_val (fst (rearm_heartbeat st ops)) of Inited \<Rightarrow> True | Connected c \<Rightarrow> connected_wf E c)"
  by (auto simp: ExtendHeartbeatTimeout_def rearm_heartbeat_def connected_wf_def split: StateType.split)

lemma writes_wf_simps [simp]:
  "writes_wf (s\<lparr>packetSendQueue := q\<rparr>) = writes_wf s"
  "writes_wf s \<Longrightarrow> writes_wf (s\<lparr>writeBuffers := um_erase bid (writeBuffers s)\<rparr>)"
  by (auto simp: writes_wf_def um_simps um_wf_erase)

lemma writes_wf_received:
  assumes "OnReceiveComplete b rh off ec chunk s = Inr (s', del, ops)"
  shows "writes_wf s' = writes_wf s" and "readBufferMaxSize s' = readBufferMaxSize s"
proof -
  show "writes_wf s' = writes_wf s"
    using OnReceive_send_side [OF assms] by (simp add: writes_wf_def)
  have "readBufferMaxSize t' = readBufferMaxSize t" if "ParsePacketsFromReadBuffer b t = Inr (ps, t')" for t t' ps
    using that by (auto simp: ParsePacketsFromReadBuffer_def split: option.splits sum.splits)
  then show "readBufferMaxSize s' = readBufferMaxSize s"
    using assms by (fastforce simp: OnReceiveComplete_def ReadToBuffer_def bindR_eq_Inr Let_def
        split: if_splits sum.splits fault.splits)
qed

lemma writes_wf_sent:
  assumes "SendNextPacket b h s = Inr (s', ops)" and "writes_wf s" and "unat (writeId s) + 2 < 2 ^ 32"
  shows "writes_wf s'" and "readBufferMaxSize s' = readBufferMaxSize s"
proof -
  obtain pkt queue where "packetSendQueue s = pkt # queue"
    using tcp_sender.send_next_law [OF assms(1)] by blast
  from SendNextPacket_succeeds [OF this assms(2,3), of b h] assms(1) show "writes_wf s'" by auto
  show "readBufferMaxSize s' = readBufferMaxSize s"
    using assms(1) by (auto simp: SendNextPacket_def bindR_eq_Inr Let_def split: list.splits)
qed

lemma unat_bound: "uint (n :: u32) < numeral k \<longleftrightarrow> unat n < numeral k"
  using of_nat_less_iff [of "unat n" "numeral k", where ?'a = int] by simp

interpretation types: connection_invariant E writes_may "\<lambda>_. connection_wf E" "connection_wf_taken E"
  for E :: "('z, 'v) env"
proof (unfold_locales, goal_cases)
  case (3 w i c now) then show ?case
    by (auto simp: connection_wf_def connection_wf_taken_def unat_bound)
next
  case (10 bid buf interval ser routes ec n w w') then show ?case
    by (auto simp: connection_wf_def connection_wf_taken_def to_connected_Inr connected_wf_def new_connected_def)
next
  case (16 off n rh ec chunk w st del ops) then show ?case
    by (simp add: connection_wf_def connection_wf_taken_def writes_wf_received)
next
  case (18 h w st ops) then show ?case
    by (simp add: connection_wf_def connection_wf_taken_def writes_wf_sent)
qed (auto simp: connection_wf_def connection_wf_taken_def PostRequest_def EventListeners_Add_def receive_packets_Inr
      send_packet_queue um_wf_erase)

section \<open>Properties\<close>

lemma types_start: "connection_wf E (new_Connection E)"
  by (simp add: connection_wf_def new_Connection_def new_TcpPacketStream_def writes_wf_def)

lemma run_types:
  "foldR (exec E) es (new_Connection E) = Inr w \<Longrightarrow> allowed (exec E) writes_may es (new_Connection E) \<Longrightarrow>
   connection_wf E w"
  by (rule types.run_inv [OF types_start])



end
