(* ===== verification/Connection_Faults.thy ===== *)
theory Connection_Faults
  imports Connection_Types
begin

text \<open>
  Which steps of the connection end in a fault, and in which: a function that computes the fault of a
  step from the state and the input alone, over the reference reader and the decoders, and the proof that
  it is exact. What it does not list cannot fail: no other assertion, access, lock or loop.
\<close>

section \<open>The faults\<close>

text \<open>
  The packets of one receive on a connected connection. \<open>codes\<close> is the dictionary of the connection,
  \<open>None\<close> once it is not connected any more: a bad message, a kick or a packet that does not belong here
  ends the session, and the messages after it are not decoded.
\<close>

fun packets_fault :: "('z, 'v) env \<Rightarrow> (i32, string) umap option \<Rightarrow> Packet list \<Rightarrow> fault option" where
  "packets_fault E codes [] = None"
| "packets_fault E codes (p # ps) =
     (case p_type p of
        Heartbeat \<Rightarrow> packets_fault E codes ps
      | Kick \<Rightarrow> packets_fault E None ps
      | Data \<Rightarrow>
          (case codes of
             None \<Rightarrow> packets_fault E None ps
           | Some dict \<Rightarrow>
               (case Deserialize (e_zlib E) (p_body p) dict of
                  Inl f \<Rightarrow> Some f
                | Inr None \<Rightarrow> packets_fault E None ps
                | Inr (Some _) \<Rightarrow> packets_fault E codes ps))
      | _ \<Rightarrow>
          (if e_build E = Debug
           then Some (AssertFailed ''Should not receive packets other than heartbeat, data and kick'')
           else packets_fault E None ps))"

text \<open>The answer to the handshake: a compressed body may not inflate, and the JSON may be of the wrong shape.\<close>

definition json_fault :: "('z, 'v) env \<Rightarrow> bytes \<Rightarrow> fault option" where
  "json_fault E bs = failure (parse_handshake (e_build E) (e_json E) (string_of_bytes bs))"

fun handshake_fault :: "('z, 'v) env \<Rightarrow> Packet list \<Rightarrow> fault option" where
  "handshake_fault E [p] =
     (if p_type p \<noteq> Handshake then None
      else if IsCompressed (p_body p) then
        (case Decompress (e_zlib E) (p_body p) 0 of
           None \<Rightarrow> Some Diverges
         | Some (rc, output, n) \<Rightarrow>
             (if rc \<noteq> 0 then None
              else (case inflated_bytes output n of Inl f \<Rightarrow> Some f | Inr bs \<Rightarrow> json_fault E bs)))
      else json_fault E (p_body p))"
| "handshake_fault E _ = None"

definition delivery_fault ::
  "('z, 'v) env \<Rightarrow> receive_handler \<Rightarrow> (i32, string) umap option \<Rightarrow> Packet list \<Rightarrow> fault option"
where
  "delivery_fault E h codes ps =
     (case h of
        HandshakeResponseReceived \<Rightarrow> handshake_fault E ps
      | PacketsReceived \<Rightarrow>
          (if e_build E = Debug \<and> length ps \<noteq> 1 then Some (AssertFailed ''packets.size() == 1'')
           else packets_fault E codes ps))"

text \<open>The bytes that have come: the reader fails, or there is no whole packet yet, or the packets are delivered.\<close>

definition receive_fault ::
  "('z, 'v) env \<Rightarrow> receive_handler \<Rightarrow> (i32, string) umap option \<Rightarrow> bytes \<Rightarrow> fault option"
where
  "receive_fault E h codes bs =
     (case frames (e_build E) bs of
        Inl (PitayaException _) \<Rightarrow> None
      | Inl f \<Rightarrow> Some f
      | Inr (ps, _) \<Rightarrow> if ps = [] then None else delivery_fault E h codes ps)"

definition dictionary :: "('l, 'cb) connection \<Rightarrow> (i32, string) umap option" where
  "dictionary w = (case st_val (state w) of Inited \<Rightarrow> None | Connected c \<Rightarrow> Some (codeToRoute c))"

fun op_fault :: "('z, 'v) env \<Rightarrow> 'cb op \<Rightarrow> completion \<Rightarrow> ('l, 'cb) connection \<Rightarrow> fault option" where
  "op_fault E (PostedRequest route _ _ _) Run w =
     (case st_val (state w) of
        Inited \<Rightarrow> None
      | Connected c \<Rightarrow> if um_find (routeToCode c) route = None then Some OutOfRange else None)"
| "op_fault E (PendingSend _ _ (HandshakeAckSent interval _ _)) (SendDone ec _) w =
     (if \<not> ec_failed ec \<and> \<not> in_int64 (interval * kHeartbeatFactor)
      then Some (UndefinedBehaviour ''signed overflow'') else None)"
| "op_fault E (PendingReceive _ _ h) (ReceiveDone ec chunk) w =
     (if ec_failed ec then None
      else if e_build E = Debug \<and> chunk = [] then Some (AssertFailed ''bytesRead > 0'')
      else receive_fault E h (dictionary w) (pending_bytes (packetStream w) @ chunk))"
| "op_fault E _ _ w = None"

fun fault_of :: "('z, 'v) env \<Rightarrow> ('l, 'cb) event \<Rightarrow> ('l, 'cb) connection \<Rightarrow> fault option" where
  "fault_of E (UserStart tid address) w =
     (if e_build E = Debug \<and> tid = e_worker E then Some (AssertFailed ''worker thread'') else None)"
| "fault_of E (Completion i c now) w = (if i < length (ioContext w) then op_fault E (ioContext w ! i) c w else None)"
| "fault_of E _ w = None"

section \<open>They are all\<close>

text \<open>What the invariants give while an operation is being completed.\<close>

definition sound_taken :: "('z, 'v) env \<Rightarrow> 'cb op \<Rightarrow> completion \<Rightarrow> ('l, 'cb) connection \<Rightarrow> bool" where
  "sound_taken E q c w \<longleftrightarrow>
     connection_wf_taken E q c w \<and> conserved_taken q c w \<and> queued_taken q c w \<and> reading_taken q c w"

lemma failures_do_not_fault:
  assumes "\<not> st_mutex (state w)"
  shows "failure (HandshakeFailed E ec w) = None" and "failure (Connection_ConnectionError E ec w) = None"
    and "failure (KickedFromServer w) = None"
  using assms by (simp_all add: HandshakeFailed_eq ConnectionError_eq KickedFromServer_eq)

lemma receive_does_not_fault: "stream_wf (packetStream w) \<Longrightarrow> failure (receive_packets h w) = None"
  by (auto simp: receive_packets_def ReceivePackets_def ReadToBuffer_def stream_wf_def)

lemma posted_request_fault:
  assumes "workerThreadId w = Some (e_worker E)"
  shows "failure (RunPostedRequest E (e_worker E) route d t cb w) = op_fault E (PostedRequest route d t cb) Run w"
proof (cases "st_val (state w)")
  case (Connected con)
  with assms show ?thesis
    by (cases "um_find (routeToCode con) route")
      (auto simp: RunPostedRequest_def Let_def NewData_def serialize_request
        Message_SerializeInto_def um_at_conv NewRequest_def split: option.splits)
qed (simp add: RunPostedRequest_def)

lemma send_next_does_not_fault:
  assumes "sound_taken E (PostedSendNext h) Run w"
  shows "failure (SendNextPacket (e_build E) h (packetStream w)) = None"
proof -
  obtain pkt queue where "packetSendQueue (packetStream w) = pkt # queue"
    using assms by (cases "packetSendQueue (packetStream w)") (auto simp: sound_taken_def queued_taken_def)
  with SendNextPacket_succeeds [OF this, of "e_build E" h] assms show ?thesis
    by (auto simp: sound_taken_def connection_wf_taken_def connection_wf_def)
qed

lemma send_handler_fault:
  assumes "sound_taken E (PendingSend bid buf h) (SendDone ec n) w" and "ec_failed ec' = ec_failed ec"
  shows "failure (run_send_handler E h ec' w) = op_fault E (PendingSend bid buf h) (SendDone ec n) w"
proof -
  have w: "\<not> st_mutex (state w)" "workerThreadId w = Some (e_worker E)" "stream_wf (packetStream w)"
    using assms(1) by (auto simp: sound_taken_def connection_wf_taken_def connection_wf_def reading_taken_def)
  show ?thesis
  proof (cases h)
    case (RequestSent t m cb)
    have "um_find (inFlightRequests w) (m_id m) = None"
      using assms(1) RequestSent
      by (auto simp: sound_taken_def conserved_taken_def dest: unique_ids_not_in_flight)
    with RequestSent show ?thesis
      by (simp add: run_send_handler_def OnRequestSent_def)
  next
    case HandshakeSent
    with w show ?thesis
      by (simp add: run_send_handler_def OnHandshakeSent_def ReceiveHandshakeResponse_def failures_do_not_fault
          receive_does_not_fault)
  next
    case (HandshakeAckSent interval ser routes)
    have "failure (StartReceivingPackets E interval ser routes w) =
        (if in_int64 (interval * kHeartbeatFactor) then None else Some (UndefinedBehaviour ''signed overflow''))"
      using w(1,3) by (simp add: StartReceivingPackets_eq to_connected_def SetConnected_def receive_does_not_fault)
    with HandshakeAckSent assms(2) show ?thesis
      by (simp add: run_send_handler_def OnHandshakeAckSent_def)
  next
    case HeartbeatSent
    with w show ?thesis
      by (simp add: run_send_handler_def OnHeartbeatSent_def failures_do_not_fault)
  qed
qed

text \<open>The packets of a receive, one after the other.\<close>

lemma ProcessMessage_keeps [simp]:
  "state (ProcessMessage m w) = state w" "packetStream (ProcessMessage m w) = packetStream w"
  by (auto simp: ProcessMessage_def split: MessageType.split option.split)

lemma dictionary_simps [simp]:
  "dictionary (to_inited ev msg w) = None" "dictionary (disconnect w) = dictionary w"
  "dictionary (start_ops ops w) = dictionary w" "dictionary (w\<lparr>packetStream := s\<rparr>) = dictionary w"
  "dictionary (ProcessMessage m w) = dictionary w"
  "dictionary (set_state (\<lambda>(st, ops). ExtendHeartbeatTimeout now st ops) w) = dictionary w"
  by (auto simp: dictionary_def ProcessMessage_def set_state_def ExtendHeartbeatTimeout_def
      split: MessageType.split option.split StateType.split prod.split)

lemma dictionary_IsConnected: "IsConnected (state w) \<longleftrightarrow> dictionary w \<noteq> None"
  by (auto simp: dictionary_def IsConnected_def split: StateType.split)

lemma ProcessPacket_cases:
  assumes "\<not> st_mutex (state w)"
  obtains (fails) f where "ProcessPacket E p w = Inl f" "packets_fault E (dictionary w) (p # ps) = Some f"
  | (goes_on) w' where "ProcessPacket E p w = Inr w'" "\<not> st_mutex (state w')" "packetStream w' = packetStream w"
      "packets_fault E (dictionary w) (p # ps) = packets_fault E (dictionary w') ps"
proof -
  have "(\<exists>f. ProcessPacket E p w = Inl f \<and> packets_fault E (dictionary w) (p # ps) = Some f) \<or>
    (\<exists>w'. ProcessPacket E p w = Inr w' \<and> \<not> st_mutex (state w') \<and> packetStream w' = packetStream w \<and>
      packets_fault E (dictionary w) (p # ps) = packets_fault E (dictionary w') ps)"
  proof (cases "p_type p")
    case Data
    then show ?thesis
      using assms
      by (cases "st_val (state w)")
        (auto simp: ProcessPacket_def ConnectionError_eq dictionary_def [of w] IsConnected_def bindR_def
          split: sum.splits option.splits)
  qed (use assms in \<open>auto simp: ProcessPacket_def ConnectionError_eq KickedFromServer_eq dictionary_IsConnected cassert_def\<close>)
  with fails goes_on show thesis by blast
qed

lemma ProcessPackets_fault:
  assumes "\<not> st_mutex (state w)"
  shows "failure (foldR (ProcessPacket E) ps w) = packets_fault E (dictionary w) ps"
    and "foldR (ProcessPacket E) ps w = Inr w' \<Longrightarrow> packetStream w' = packetStream w"
  using assms
proof (induction ps arbitrary: w)
  case (Cons p ps)
  case 1
  then show ?case
    by (rule ProcessPacket_cases [of w E p ps]) (simp_all add: Cons.IH del: packets_fault.simps)
next
  case (Cons p ps)
  case 2
  from 2(2) show ?case
    by (rule ProcessPacket_cases [of w E p ps]) (use 2(1) Cons.IH(2) in \<open>auto simp: bindR_eq_Inr\<close>)
qed simp_all

lemma OnPacketsReceived_fault:
  assumes "\<not> st_mutex (state w)" and "stream_wf (packetStream w)"
  shows "failure (OnPacketsReceived E ec_success ps w) = delivery_fault E PacketsReceived (dictionary w) ps"
proof -
  have "failure (bindR (foldR (ProcessPacket E) ps w) (receive_packets PacketsReceived)) =
      failure (foldR (ProcessPacket E) ps w)"
    using ProcessPackets_fault(2) [OF assms(1), of E ps] assms(2)
    by (cases "foldR (ProcessPacket E) ps w") (auto simp: receive_does_not_fault)
  then show ?thesis
    by (simp add: OnPacketsReceived_def failure_cassert delivery_fault_def ProcessPackets_fault(1) [OF assms(1)])
qed

lemma SendHandshakeAck_fault:
  "\<not> st_mutex (state w) \<Longrightarrow> failure (SendHandshakeAck E (string_of_bytes bs) w) = json_fault E bs"
  by (auto simp: SendHandshakeAck_def json_fault_def failure_bindR failures_do_not_fault
      split: sum.splits option.splits)

lemma OnHandshakeResponse_fault:
  assumes "\<not> st_mutex (state w)" and "ps \<noteq> []"
  shows "failure (OnHandshakeResponse E ec_success ps w) = handshake_fault E ps"
  using assms
  by (cases "(E, ps)" rule: handshake_fault.cases)
    (auto simp: OnHandshakeResponse_def failures_do_not_fault SendHandshakeAck_fault failure_bindR
      split: option.splits sum.splits)

lemma delivered_fault:
  assumes "\<not> st_mutex (state w)" and "stream_wf (packetStream w)" and "ps \<noteq> []"
  shows "failure (run_receive_handler E h ec_success ps w) = delivery_fault E h (dictionary w) ps"
  using assms
  by (cases h) (simp_all add: run_receive_handler_def OnHandshakeResponse_fault OnPacketsReceived_fault delivery_fault_def)

lemma undelivered_does_not_fault:
  assumes "\<not> st_mutex (state w)" and "ec_failed ec"
  shows "failure (run_receive_handler E h ec ps w) = None"
  using assms
  by (cases h) (simp_all add: run_receive_handler_def OnHandshakeResponse_def OnPacketsReceived_def failures_do_not_fault)

text \<open>The bytes of a receive.\<close>

lemma ReadToBuffer_does_not_fault: "stream_wf s \<Longrightarrow> failure (bindR (ReadToBuffer h s) (\<lambda>ops. Inr (g ops))) = None"
  by (auto simp: ReadToBuffer_def stream_wf_def)

lemma OnReceive_fault:
  assumes wf: "stream_wf s" and room: "length c \<le> readBufferMaxSize s - readBufferHead s" and ec: "\<not> ec_failed ec"
  shows "failure (OnReceiveComplete b h (readBufferHead s) ec c s) =
       (if b = Debug \<and> c = [] then Some (AssertFailed ''bytesRead > 0'')
        else (case frames b (pending_bytes s @ c) of
                Inl (PitayaException _) \<Rightarrow> None | Inl f \<Rightarrow> Some f | Inr _ \<Rightarrow> None))"
    and "OnReceiveComplete b h (readBufferHead s) ec c s = Inr (s', del, ops) \<Longrightarrow>
       stream_wf s' \<and> del = (case frames b (pending_bytes s @ c) of
         Inl _ \<Rightarrow> Some (make_error_code InvalidPacketType, [])
       | Inr (ps, _) \<Rightarrow> if ps = [] then None else Some (ec_success, ps))"
proof -
  let ?s1 = "s\<lparr>readBuffer := overwrite (readBufferHead s) c (readBuffer s),
               readBufferHead := readBufferHead s + length c\<rparr>"
  have fits: "readBufferHead s + length c \<le> length (readBuffer s)"
    using wf room by (auto simp: stream_wf_def)
  then have wf1: "stream_wf ?s1" using wf by (auto simp: stream_wf_def)
  have p: "pending_bytes ?s1 = pending_bytes s @ c"
    using fits by (simp add: pending_bytes_def take_overwrite)
  note parse = ParsePackets_cases [OF wf1, of b, unfolded p]
  show "failure (OnReceiveComplete b h (readBufferHead s) ec c s) =
       (if b = Debug \<and> c = [] then Some (AssertFailed ''bytesRead > 0'')
        else (case frames b (pending_bytes s @ c) of
                Inl (PitayaException _) \<Rightarrow> None | Inl f \<Rightarrow> Some f | Inr _ \<Rightarrow> None))"
    using ec fits parse ParsePackets_wf [OF wf1, of b]
    by (auto simp: OnReceiveComplete_def failure_cassert Let_def ReadToBuffer_does_not_fault
        split: sum.splits fault.splits)
  assume r: "OnReceiveComplete b h (readBufferHead s) ec c s = Inr (s', del, ops)"
  have "stream_wf s'" using OnReceive_outcome [OF wf _ r] room by simp
  with r ec fits parse show "stream_wf s' \<and> del = (case frames b (pending_bytes s @ c) of
         Inl _ \<Rightarrow> Some (make_error_code InvalidPacketType, [])
       | Inr (ps, _) \<Rightarrow> if ps = [] then None else Some (ec_success, ps))"
    by (auto simp: OnReceiveComplete_def Let_def bindR_eq_Inr split: sum.splits fault.splits if_splits)
qed

lemma receive_complete_fault:
  fixes w :: "('l, 'cb) connection"
  assumes s: "sound_taken E (PendingReceive off n h) (ReceiveDone ec chunk) w"
    and r: "complete E (PendingReceive off n h) (ReceiveDone ec chunk) w = Some r"
  shows "failure r = op_fault E (PendingReceive off n h) (ReceiveDone ec chunk) w"
proof -
  let ?r = "OnReceiveComplete (e_build E) h off ec chunk (packetStream w) ::
    (tcp_packet_stream \<times> (error_code \<times> Packet list) option \<times> 'cb op list) result"
  let ?bs = "pending_bytes (packetStream w) @ chunk"
  have w: "\<not> st_mutex (state w)" "stream_wf (packetStream w)" "off = readBufferHead (packetStream w)"
    "n = readBufferMaxSize (packetStream w) - readBufferHead (packetStream w)"
    and room: "\<not> ec_failed ec \<Longrightarrow> length chunk \<le> n"
    using s by (auto simp: sound_taken_def reading_taken_def)
  show ?thesis
  proof (cases "ec_failed ec")
    case True
    with w(1) r show ?thesis
      by (auto simp: OnReceiveComplete_def undelivered_does_not_fault)
  next
    case False
    note f = OnReceive_fault [OF w(2) room [OF False, unfolded w(4)] False, of "e_build E" h, folded w(3)]
    have f1: "failure ?r = (if e_build E = Debug \<and> chunk = [] then Some (AssertFailed ''bytesRead > 0'')
        else (case frames (e_build E) ?bs of
                Inl (PitayaException _) \<Rightarrow> None | Inl f \<Rightarrow> Some f | Inr _ \<Rightarrow> None))"
      by (rule f(1))
    show ?thesis
    proof (cases ?r)
      case (Inl e)
      with f1 False r show ?thesis
        by (auto simp: receive_fault_def split: if_splits sum.splits fault.splits)
    next
      case (Inr x)
      then obtain s' del ops where x: "?r = Inr (s', del, ops)" by (cases x) auto
      note f2 = f(2) [OF x]
      from x r have "failure r = (case del of None \<Rightarrow> None
          | Some (ec', ps) \<Rightarrow> failure (run_receive_handler E h ec' ps (start_ops ops (w\<lparr>packetStream := s'\<rparr>))))"
        by (auto split: option.splits)
      with f1 f2 x False w(1) show ?thesis
        by (auto simp: receive_fault_def delivered_fault undelivered_does_not_fault
            split: if_splits sum.splits fault.splits)
    qed
  qed
qed

lemma complete_fault:
  assumes s: "sound_taken E q c w" and r: "complete E q c w = Some r"
  shows "failure r = op_fault E q c w"
proof -
  have w: "\<not> st_mutex (state w)" "workerThreadId w = Some (e_worker E)"
    using s by (auto simp: sound_taken_def connection_wf_taken_def connection_wf_def)
  show ?thesis
    using r
  proof (cases rule: complete.cases [of "(E, q, c, w)"])
    case (1 E' route d t cb w')
    with r w(2) show ?thesis by (auto simp: posted_request_fault)
  next
    case (2 E' h w')
    with r s send_next_does_not_fault [of E h w] show ?thesis
      by (auto simp: failure_bindR failure_eq_None)
  next
    case (3 E' host port ec w')
    with r w show ?thesis by (auto simp: OnConnect_def SendHandshake_def failures_do_not_fault)
  next
    case (4 E' bid buf h ec n w')
    then show ?thesis
      using r s send_handler_fault [of E bid buf h ec n w ec] send_handler_fault [of E bid buf h ec n w ec_success]
      by (auto simp: OnSendComplete_def failure_bindR split: sum.splits)
  next
    case (5 E' off n h ec chunk w')
    then have q: "q = PendingReceive off n h" and c: "c = ReceiveDone ec chunk" by auto
    from s r show ?thesis unfolding q c by (rule receive_complete_fault)
  next
    case (6 E' sp ec w')
    with r show ?thesis by (auto simp: OnHeartbeatTimer_def HeartbeatTick_def heartbeatTick_def)
  next
    case (7 E' sp ec w')
    with r w show ?thesis by (auto simp: OnHeartbeatTimeout_def failures_do_not_fault)
  qed auto
qed

section \<open>Properties\<close>

text \<open>All that the invariants ask of the environment.\<close>

definition may_run :: "('l, 'cb) event \<Rightarrow> ('l, 'cb) connection \<Rightarrow> bool" where
  "may_run ev w \<longleftrightarrow> writes_may ev w \<and> room_may ev w \<and> session_may ev w"



end
