(* ===== verification/Connection_Wire.thy ===== *)
theory Connection_Wire
  imports Connection_Streams
begin

text \<open>
  What reaches the server. \<^verbatim>\<open>TcpSocket::Send\<close> calls \<^verbatim>\<open>async_send\<close>, which may write fewer bytes than
  it is given and reports their number to the closure of \<^verbatim>\<open>SendNextPacket\<close>; \<open>wire\<close> collects, along a
  run, the bytes that the completed writes have put on the wire.
\<close>

section \<open>The bytes on the wire\<close>

fun op_sent :: "'cb op \<Rightarrow> completion \<Rightarrow> bytes" where
  "op_sent (PendingSend _ buf _) (SendDone _ n) = take n buf"
| "op_sent _ _ = []"

fun sent :: "('l, 'cb) event \<Rightarrow> ('l, 'cb) connection \<Rightarrow> bytes" where
  "sent (Completion i c now) w = (if i < length (ioContext w) then op_sent (ioContext w ! i) c else [])"
| "sent _ w = []"

fun wire :: "('z, 'v) env \<Rightarrow> ('l, 'cb) event list \<Rightarrow> ('l, 'cb) connection \<Rightarrow> bytes" where
  "wire E [] w = []"
| "wire E (e # es) w = sent e w @ (case exec E e w of Inl _ \<Rightarrow> [] | Inr w' \<Rightarrow> wire E es w')"

text \<open>Every write is a whole one.\<close>

fun whole_op :: "'cb op \<Rightarrow> completion \<Rightarrow> bool" where
  "whole_op (PendingSend _ buf _) (SendDone _ n) \<longleftrightarrow> n = length buf"
| "whole_op _ _ \<longleftrightarrow> True"

fun whole_may :: "('l, 'cb) event \<Rightarrow> ('l, 'cb) connection \<Rightarrow> bool" where
  "whole_may (Completion i c now) w \<longleftrightarrow> (i < length (ioContext w) \<longrightarrow> whole_op (ioContext w ! i) c)"
| "whole_may _ w \<longleftrightarrow> True"

text \<open>The packets a client sends.\<close>

definition client_packet :: "Packet \<Rightarrow> bool" where
  "client_packet p \<longleftrightarrow> p \<in> {NewHandshake handshake_json, NewHandshakeAck, NewHeartbeat} \<or> (\<exists>m dict. NewData m dict = Inr p)"

lemma goes_with_client: "goes_with p h \<Longrightarrow> client_packet p"
  by (cases h) (auto simp: client_packet_def)

section \<open>Whole writes\<close>

lemma op_sent_packets:
  "write_ok q \<Longrightarrow> whole_op q c \<Longrightarrow> \<exists>ps. op_sent q c = concat (map serialize ps) \<and> list_all client_packet ps"
proof (cases "(q, c)" rule: op_sent.cases)
  case (1 bid buf h ec n)
  assume "write_ok q" and "whole_op q c"
  with 1 obtain p where "goes_with p h" and "op_sent q c = serialize p" by auto
  then show ?thesis by (intro exI [of _ "[p]"]) (simp add: goes_with_client)
qed (auto intro!: exI [of _ "[]"])

lemma sent_packets:
  assumes "matched False w" and "whole_may e w"
  shows "\<exists>ps. sent e w = concat (map serialize ps) \<and> list_all client_packet ps"
proof (cases e)
  case (Completion i c now)
  show ?thesis
  proof (cases "i < length (ioContext w)")
    case True
    with assms(1) have "write_ok (ioContext w ! i)" by (auto simp: matched_def list_all_iff)
    with True assms(2) Completion show ?thesis by (auto intro!: op_sent_packets)
  qed (auto simp: Completion intro!: exI [of _ "[]"])
qed (auto intro!: exI [of _ "[]"])

lemma wire_packets:
  assumes "matched False w" and "allowed (exec E) fifo_may es w" and "allowed (exec E) whole_may es w"
  shows "\<exists>ps. wire E es w = concat (map serialize ps) \<and> list_all client_packet ps"
  using assms
proof (induction es arbitrary: w)
  case (Cons e es)
  then obtain ps where ps: "sent e w = concat (map serialize ps)" "list_all client_packet ps"
    using sent_packets [of w e] by auto
  show ?case
  proof (cases "exec E e w")
    case (Inl f)
    with ps show ?thesis by auto
  next
    case (Inr w')
    have "matched False w'"
      using send_order.run_inv [of w E "[e]" w'] Cons.prems Inr by (simp del: exec.simps)
    with Cons.IH [of w'] Cons.prems Inr obtain qs where
      "wire E es w' = concat (map serialize qs)" "list_all client_packet qs" by auto
    with ps Inr show ?thesis by (intro exI [of _ "ps @ qs"]) auto
  qed
qed (auto intro!: exI [of _ "[]"])



section \<open>Short writes\<close>

text \<open>The same run with other numbers of bytes written.\<close>

fun recount_completion :: "(nat \<Rightarrow> nat) \<Rightarrow> completion \<Rightarrow> completion" where
  "recount_completion k (SendDone ec n) = SendDone ec (k n)"
| "recount_completion k c = c"

fun recount :: "(nat \<Rightarrow> nat) \<Rightarrow> ('l, 'cb) event \<Rightarrow> ('l, 'cb) event" where
  "recount k (Completion i c now) = Completion i (recount_completion k c) now"
| "recount k e = e"

lemma complete_recount: "complete E q (recount_completion k c) w = complete E q c w"
  by (cases "(E, q, c, w)" rule: complete.cases) (simp_all add: OnSendComplete_def)

lemma exec_recount: "exec E (recount k e) w = exec E e w"
  by (cases e) (simp_all add: complete_recount)

lemma op_sent_recount: "op_sent q (recount_completion (\<lambda>_. 0) c) = []"
  by (cases "(q, c)" rule: op_sent.cases) simp_all

lemma sent_recount: "sent (recount (\<lambda>_. 0) e) w = []"
  by (cases e) (simp_all add: op_sent_recount)


end
