(* ===== verification/Connection_Handshake.thy ===== *)
theory Connection_Handshake
  imports Connection_Handlers
begin

text \<open>
  Connecting: the run of a handshake from any connection that is ready to start (a fresh one, or one that
  has lost its session and has nothing pending), with every answer of the server; losing a session and
  connecting again; and connecting again with bytes left over.
\<close>

section \<open>The handshake\<close>

text \<open>Once nothing is pending, no completion can come.\<close>

lemma idle_stays: "ioContext w = [] \<Longrightarrow> foldR (exec E) (map (\<lambda>(i, c, now). Completion i c now) cs) w = Inr w"
  by (induction cs) auto

text \<open>
  The run of a successful handshake: the socket connects, the handshake is sent, the answer of the
  server arrives in one piece, and the handshake ack is sent.
\<close>

definition connect_events :: "nat \<Rightarrow> string \<Rightarrow> bytes \<Rightarrow> int \<Rightarrow> ('l, 'cb) event list" where
  "connect_events tid address answer now =
     [UserStart tid address, Completion 0 (ConnectDone ec_success) now, Completion 0 Run now,
      Completion 0 (SendDone ec_success 0) now, Completion 0 (ReceiveDone ec_success answer) now,
      Completion 0 Run now, Completion 0 (SendDone ec_success 0) now]"

lemma SendNextPacket_single:
  assumes "packetSendQueue s = [p]" and "writeBuffers s = []"
  shows "SendNextPacket b h s =
     Inr (s\<lparr>packetSendQueue := [], writeId := writeId s + 1,
             writeBuffers := [(writeId s, serialize p)]\<rparr>, [PendingSend (writeId s) (serialize p) h])"
  using assms by (simp add: SendNextPacket_def Let_def um_set_def)

text \<open>A stream with nothing queued, nothing being written and nothing received; a connection that can be started.\<close>

definition stream_idle :: "tcp_packet_stream \<Rightarrow> bool" where
  "stream_idle s \<longleftrightarrow> stream_wf s \<and> pending_bytes s = [] \<and> readBufferMaxSize s = 2048 \<and> packetSendQueue s = []
     \<and> writeBuffers s = []"

definition ready_to_start :: "('z, 'v) env \<Rightarrow> ('l, 'cb) connection \<Rightarrow> bool" where
  "ready_to_start E w \<longleftrightarrow> st_val (state w) = Inited \<and> \<not> st_mutex (state w) \<and> workerThreadId w = Some (e_worker E)
     \<and> ioContext w = [] \<and> stream_idle (packetStream w)"

lemma fresh_ready [simp]: "ready_to_start E ((new_Connection E)\<lparr>eventListeners := el\<rparr>)" "ready_to_start E (new_Connection E)"
  by (simp_all add: ready_to_start_def stream_idle_def stream_wf_def pending_bytes_def new_Connection_def new_TcpPacketStream_def)

lemma stream_idle_buffer:
  "stream_idle s \<Longrightarrow> readBufferHead s = 0" "stream_idle s \<Longrightarrow> readBuffer s \<noteq> []" "stream_idle s \<Longrightarrow> length (readBuffer s) = 2048"
  using length_pending_bytes [of s] by (auto simp: stream_idle_def stream_wf_def)

text \<open>Up to the first receive: nothing of the stream has changed but the number of the next write.\<close>

definition next_write :: "tcp_packet_stream \<Rightarrow> tcp_packet_stream" where
  "next_write s = s\<lparr>packetSendQueue := [], writeId := writeId s + 1, writeBuffers := []\<rparr>"

lemma stream_idle_next_write: "stream_idle s \<Longrightarrow> stream_idle (next_write s)"
  by (simp add: stream_idle_def next_write_def stream_wf_def pending_bytes_def)

lemma handshake_sent_run:
  assumes "SplitHostAndPort address = Some (host, port)" and "e_resolve E host port = Inr ()"
    and "tid \<noteq> e_worker E" and "ready_to_start E w"
  shows "foldR (exec E) (take 4 (connect_events tid address answer now)) w =
     Inr (w\<lparr>clock := now, packetStream := next_write (packetStream w),
            ioContext := [PendingReceive 0 2048 HandshakeResponseReceived]\<rparr>)"
proof -
  let ?s = "packetStream w" and ?p = "NewHandshake handshake_json"
  have w: "ioContext w = []" "workerThreadId w = Some (e_worker E)" "\<not> st_mutex (state w)"
    "packetSendQueue ?s = []" "writeBuffers ?s = []"
    using assms(4) by (simp_all add: ready_to_start_def stream_idle_def)
  have idle: "readBufferHead ?s = 0" "readBuffer ?s \<noteq> []" "length (readBuffer ?s) = 2048"
    using assms(4) stream_idle_buffer [of ?s] by (simp_all add: ready_to_start_def)
  have 1: "exec E (UserStart tid address) w = Inr (w\<lparr>ioContext := [PendingConnect host port]\<rparr>)"
    using assms(1-3) w by (simp add: Start_def TcpPacketStream_Connect_def start_ops_def)
  have 2: "exec E (Completion 0 (ConnectDone ec_success) now) (w\<lparr>ioContext := [PendingConnect host port]\<rparr>) =
      Inr (w\<lparr>clock := now, packetStream := ?s\<lparr>packetSendQueue := [?p]\<rparr>, ioContext := [PostedSendNext HandshakeSent]\<rparr>)"
    using w by (simp add: OnConnect_def SendHandshake_def take_op_def send_packet_def SendPacket_def start_ops_def)
  have 3: "exec E (Completion 0 Run now)
      (w\<lparr>clock := now, packetStream := ?s\<lparr>packetSendQueue := [?p]\<rparr>, ioContext := [PostedSendNext HandshakeSent]\<rparr>) =
      Inr (w\<lparr>clock := now, packetStream := (next_write ?s)\<lparr>writeBuffers := [(writeId ?s, serialize ?p)]\<rparr>,
             ioContext := [PendingSend (writeId ?s) (serialize ?p) HandshakeSent]\<rparr>)"
    using w by (simp add: SendNextPacket_single take_op_def start_ops_def next_write_def)
  have 4: "exec E (Completion 0 (SendDone ec_success 0) now)
      (w\<lparr>clock := now, packetStream := (next_write ?s)\<lparr>writeBuffers := [(writeId ?s, serialize ?p)]\<rparr>,
             ioContext := [PendingSend (writeId ?s) (serialize ?p) HandshakeSent]\<rparr>) =
      Inr (w\<lparr>clock := now, packetStream := next_write ?s,
             ioContext := [PendingReceive 0 2048 HandshakeResponseReceived]\<rparr>)"
    using w idle
    by (simp add: OnSendComplete_def run_send_handler_def OnHandshakeSent_def ReceiveHandshakeResponse_def
        receive_packets_def ReceivePackets_def ReadToBuffer_def next_write_def
        take_op_def start_ops_def update_stream_def um_erase_def)
  show ?thesis
    unfolding connect_events_def by (simp add: 1 2 3 4 del: exec.simps)
qed

text \<open>The answer of the server arrives in one piece and is handed to the reader of the answer.\<close>

lemma handshake_received:
  fixes w :: "('l, 'cb) connection"
  assumes "length body \<le> 2044" and "\<not> IsCompressed body"
    and "stream_wf s" and "pending_bytes s = []" and "readBufferMaxSize s = 2048"
    and "ioContext w = [PendingReceive 0 2048 HandshakeResponseReceived]" and "packetStream w = s"
  obtains s' where
    "exec E (Completion 0 (ReceiveDone ec_success (serialize (NewHandshake_range body))) now) w =
       SendHandshakeAck E (string_of_bytes body) (w\<lparr>clock := now, packetStream := s', ioContext := []\<rparr>)"
    and "stream_wf s'" and "pending_bytes s' = []" and "packetSendQueue s' = packetSendQueue s"
    and "writeBuffers s' = writeBuffers s" and "readBufferMaxSize s' = 2048"
proof -
  let ?p = "NewHandshake_range body"
  have sp: "server_packet ?p" using assms(1) by (simp add: server_packet_def NewHandshake_range_def)
  have len: "length (serialize ?p) \<le> readBufferMaxSize s"
    using assms(1,5) by (simp add: Packet_SerializeInto_def NewHandshake_range_def)
  obtain s' where r: "OnReceiveComplete (e_build E) HandshakeResponseReceived 0 ec_success (serialize ?p) s =
        Inr (s', Some (ec_success, [?p]), [] :: 'cb op list)"
    and s': "pending_bytes s' = []" "stream_wf s'" "readBufferMaxSize s' = readBufferMaxSize s"
      "packetSendQueue s' = packetSendQueue s" "writeBuffers s' = writeBuffers s"
    using OnReceive_one_packet [OF sp len assms(3,4)] by blast
  have "OnHandshakeResponse E ec_success [?p] v = SendHandshakeAck E (string_of_bytes body) v" for v :: "('l, 'cb) connection"
    using assms(2) by (simp add: OnHandshakeResponse_def NewHandshake_range_def)
  then have "exec E (Completion 0 (ReceiveDone ec_success (serialize ?p)) now) w =
      SendHandshakeAck E (string_of_bytes body) (w\<lparr>clock := now, packetStream := s', ioContext := []\<rparr>)"
    using assms(6,7) r by (simp add: run_receive_handler_def start_ops_def take_op_def)
  with s' assms(5) that show ?thesis by auto
qed

text \<open>If it can be used, the handshake ack is queued.\<close>

lemma handshake_answered:
  assumes "length body \<le> 2044" and "\<not> IsCompressed body"
    and "parse_handshake (e_build E) (e_json E) (string_of_bytes body) = Inr (Some (interval, ser, routes))"
    and "stream_wf s" and "pending_bytes s = []" and "readBufferMaxSize s = 2048"
    and "packetSendQueue s = []" and "writeBuffers s = []"
    and "ioContext w = [PendingReceive 0 2048 HandshakeResponseReceived]" and "packetStream w = s"
  shows "\<exists>s'. exec E (Completion 0 (ReceiveDone ec_success (serialize (NewHandshake_range body))) now) w =
       Inr (w\<lparr>clock := now, packetStream := s'\<lparr>packetSendQueue := [NewHandshakeAck]\<rparr>,
              ioContext := [PostedSendNext (HandshakeAckSent interval ser routes)]\<rparr>)
     \<and> stream_wf s' \<and> pending_bytes s' = [] \<and> packetSendQueue s' = [] \<and> writeBuffers s' = []
     \<and> readBufferMaxSize s' = 2048"
proof -
  from handshake_received [OF assms(1,2,4-6,9,10), of E now] obtain s' where
    e: "exec E (Completion 0 (ReceiveDone ec_success (serialize (NewHandshake_range body))) now) w =
       SendHandshakeAck E (string_of_bytes body) (w\<lparr>clock := now, packetStream := s', ioContext := []\<rparr>)"
    and s': "stream_wf s'" "pending_bytes s' = []" "packetSendQueue s' = []" "writeBuffers s' = []"
      "readBufferMaxSize s' = 2048"
    using assms(7,8) by auto
  show ?thesis
    unfolding e using assms(3) s'
    by (intro exI [of _ s']) (simp add: SendHandshakeAck_def send_packet_def SendPacket_def start_ops_def)
qed

text \<open>The ack is written and sent: the connection is connected and receives.\<close>

lemma handshake_acknowledged:
  assumes "in_int64 (interval * kHeartbeatFactor)" and "stream_wf s" and "pending_bytes s = []"
    and "readBufferMaxSize s = 2048" and "packetSendQueue s = []" and "writeBuffers s = []"
    and "\<not> st_mutex (state w)"
  shows "\<exists>w'. foldR (exec E) [Completion 0 Run now, Completion 0 (SendDone ec_success 0) now]
       (w\<lparr>packetStream := s\<lparr>packetSendQueue := [NewHandshakeAck]\<rparr>,
          ioContext := [PostedSendNext (HandshakeAckSent interval ser routes)]\<rparr>) = Inr w'
     \<and> st_val (state w') = Connected (new_connected (e_order E) interval (interval * kHeartbeatFactor) ser routes
          (ExpiresAfter interval) (ExpiresAt (now + interval * kHeartbeatFactor)))
     \<and> ioContext w' = [PendingWait HeartbeatTimer False, PendingWait HeartbeatTimeoutTimer False,
          PendingReceive 0 2048 PacketsReceived]
     \<and> listenerCalls w' = listenerCalls w
          @ map (\<lambda>l. (l, EvConnected, ''Connection successful'')) (el_listeners (eventListeners w))
     \<and> \<not> st_mutex (state w') \<and> workerThreadId w' = workerThreadId w \<and> inFlightRequests w' = inFlightRequests w
     \<and> handlerCalls w' = handlerCalls w \<and> reqId w' = reqId w \<and> stream_idle (packetStream w')"
proof -
  let ?a = "w\<lparr>packetStream := s\<lparr>packetSendQueue := [NewHandshakeAck]\<rparr>,
          ioContext := [PostedSendNext (HandshakeAckSent interval ser routes)]\<rparr>"
  let ?s = "s\<lparr>writeId := writeId s + 1, packetSendQueue := [], writeBuffers := [(writeId s, serialize NewHandshakeAck)]\<rparr>"
  let ?b = "w\<lparr>clock := now, packetStream := ?s,
          ioContext := [PendingSend (writeId s) (serialize NewHandshakeAck) (HandshakeAckSent interval ser routes)]\<rparr>"
  have head: "readBufferHead s = 0" "readBuffer s \<noteq> []" "length (readBuffer s) = 2048"
    using length_pending_bytes [OF assms(2)] assms(2-4) by (auto simp: stream_wf_def)
  have 1: "exec E (Completion 0 Run now) ?a = Inr ?b"
    using assms(6) by (simp add: SendNextPacket_single take_op_def start_ops_def)
  show ?thesis
    using assms(1-4,7) head
    by (simp add: 1 del: exec.simps(4))
      (simp add: OnSendComplete_def run_send_handler_def OnHandshakeAckSent_def StartReceivingPackets_eq
        to_connected_Inr receive_packets_Inr bindR_eq_Inr EventListeners_Broadcast_def take_op_def
        drop_heartbeat_timers_def stream_idle_def stream_wf_def pending_bytes_def um_erase_def)
qed

lemma handshake_run_connects:
  fixes w :: "('l, 'cb) connection"
  assumes "SplitHostAndPort address = Some (host, port)" and "e_resolve E host port = Inr ()"
    and "tid \<noteq> e_worker E" and "ready_to_start E w" and "length body \<le> 2044" and "\<not> IsCompressed body"
    and "parse_handshake (e_build E) (e_json E) (string_of_bytes body) = Inr (Some (interval, ser, routes))"
    and "in_int64 (interval * kHeartbeatFactor)"
  obtains w' where
    "foldR (exec E) (connect_events tid address (serialize (NewHandshake_range body)) now) w = Inr w'"
    and "st_val (state w') = Connected (new_connected (e_order E) interval (interval * kHeartbeatFactor) ser routes
          (ExpiresAfter interval) (ExpiresAt (now + interval * kHeartbeatFactor)))"
    and "ioContext w' = [PendingWait HeartbeatTimer False, PendingWait HeartbeatTimeoutTimer False,
          PendingReceive 0 2048 PacketsReceived]"
    and "listenerCalls w' = listenerCalls w
          @ map (\<lambda>l. (l, EvConnected, ''Connection successful'')) (el_listeners (eventListeners w))"
    and "\<not> st_mutex (state w')" and "workerThreadId w' = workerThreadId w" and "inFlightRequests w' = inFlightRequests w"
    and "handlerCalls w' = handlerCalls w" and "reqId w' = reqId w" and "stream_idle (packetStream w')"
proof -
  let ?ev = "connect_events tid address (serialize (NewHandshake_range body)) now :: ('l, 'cb) event list"
  let ?w = "w\<lparr>clock := now, packetStream := next_write (packetStream w),
            ioContext := [PendingReceive 0 2048 HandshakeResponseReceived]\<rparr>"
  have "stream_idle (packetStream ?w)"
    using assms(4) by (simp add: ready_to_start_def stream_idle_next_write)
  then have s: "stream_wf (packetStream ?w)" "pending_bytes (packetStream ?w) = []"
    "readBufferMaxSize (packetStream ?w) = 2048" "packetSendQueue (packetStream ?w) = []"
    "writeBuffers (packetStream ?w) = []"
    by (simp_all add: stream_idle_def)
  have a: "foldR (exec E) (take 4 ?ev) w = Inr ?w"
    by (rule handshake_sent_run [OF assms(1-4)])
  have d: "drop 4 ?ev = [Completion 0 (ReceiveDone ec_success (serialize (NewHandshake_range body))) now,
      Completion 0 Run now, Completion 0 (SendDone ec_success 0) now]"
    by (simp add: connect_events_def)
  obtain s' where r: "exec E (Completion 0 (ReceiveDone ec_success (serialize (NewHandshake_range body))) now) ?w =
       Inr (?w\<lparr>clock := now, packetStream := s'\<lparr>packetSendQueue := [NewHandshakeAck]\<rparr>,
              ioContext := [PostedSendNext (HandshakeAckSent interval ser routes)]\<rparr>)"
    and s': "stream_wf s'" "pending_bytes s' = []" "readBufferMaxSize s' = 2048" "packetSendQueue s' = []"
      "writeBuffers s' = []"
    using handshake_answered [OF assms(5-7) s(1-5), of ?w now] by auto
  have m: "\<not> st_mutex (state ?w)" using assms(4) by (simp add: ready_to_start_def)
  have "foldR (exec E) (take 4 ?ev @ drop 4 ?ev) w =
      foldR (exec E) [Completion 0 Run now, Completion 0 (SendDone ec_success 0) now]
        (?w\<lparr>clock := now, packetStream := s'\<lparr>packetSendQueue := [NewHandshakeAck]\<rparr>,
              ioContext := [PostedSendNext (HandshakeAckSent interval ser routes)]\<rparr>)"
    unfolding foldR_append a d bindR_Inr foldR.simps(2) [of _ "Completion 0 (ReceiveDone _ _) _"] r ..
  then have "foldR (exec E) ?ev w =
      foldR (exec E) [Completion 0 Run now, Completion 0 (SendDone ec_success 0) now]
        (?w\<lparr>clock := now, packetStream := s'\<lparr>packetSendQueue := [NewHandshakeAck]\<rparr>,
              ioContext := [PostedSendNext (HandshakeAckSent interval ser routes)]\<rparr>)"
    by (simp only: append_take_drop_id)
  with handshake_acknowledged [OF assms(8) s' m, of E now ser routes] that show thesis by auto
qed

text \<open>
  C3: the handshake connects. From a fresh connection, or any other that is ready to start, if the host
  resolves, the operations succeed and the server answers with a plain handshake packet that fits the buffer
  and holds a heartbeat interval in range, the run ends connected, with the routes of the answer, both
  heartbeat waits and one receive pending; every listener has been told exactly that, and requests in
  flight stay so.
\<close>

theorem handshake_connects:
  fixes w :: "('l, 'cb) connection"
  assumes "SplitHostAndPort address = Some (host, port)" and "e_resolve E host port = Inr ()"
    and "tid \<noteq> e_worker E" and "ready_to_start E w" and "length body \<le> 2044" and "\<not> IsCompressed body"
    and "parse_handshake (e_build E) (e_json E) (string_of_bytes body) = Inr (Some (interval, ser, routes))"
    and "in_int64 (interval * kHeartbeatFactor)"
  shows "\<exists>w'.
     foldR (exec E) (connect_events tid address (serialize (NewHandshake_range body)) now) w = Inr w'
     \<and> (\<exists>c. st_val (state w') = Connected c \<and> heartbeatInterval c = interval \<and> serializer c = ser
          \<and> routeToCode c = routes \<and> codeToRoute c = invert_routes (e_order E routes))
     \<and> ioContext w' = [PendingWait HeartbeatTimer False, PendingWait HeartbeatTimeoutTimer False,
          PendingReceive 0 2048 PacketsReceived]
     \<and> listenerCalls w' = listenerCalls w
          @ map (\<lambda>l. (l, EvConnected, ''Connection successful'')) (el_listeners (eventListeners w))
     \<and> inFlightRequests w' = inFlightRequests w \<and> handlerCalls w' = handlerCalls w"
  by (rule handshake_run_connects [OF assms, of now]) (auto simp: new_connected_def)

theorem handshake_connects_witness:
  "\<exists>w :: (nat, nat) connection.
     foldR (exec sample_env) (connect_events 7 ''h:1'' (serialize (NewHandshake_range [123, 125])) 0)
         ((new_Connection sample_env)\<lparr>eventListeners := \<lparr>el_mutex = False, el_listeners = [1]\<rparr>\<rparr>) = Inr w
     \<and> listenerCalls w = [(1, EvConnected, ''Connection successful'')]"
proof -
  let ?w = "(new_Connection sample_env)\<lparr>eventListeners := \<lparr>el_mutex = False, el_listeners = [1]\<rparr>\<rparr> :: (nat, nat) connection"
  have "SplitHostAndPort ''h:1'' = Some (''h'', ''1'')" by code_simp
  moreover have "e_resolve sample_env ''h'' ''1'' = Inr ()" and "7 \<noteq> e_worker sample_env"
    by (simp_all add: sample_env_def)
  moreover have "length [123 :: u8, 125] \<le> 2044" and "\<not> IsCompressed [123, 125]"
    by (simp_all add: IsCompressed_def)
  moreover have "parse_handshake (e_build sample_env) (e_json sample_env) (string_of_bytes [123, 125]) =
      Inr (Some (30, ''json'', [(''r'', 9)]))" by code_simp
  moreover have "in_int64 (30 * kHeartbeatFactor)" by (simp add: in_int64_def kHeartbeatFactor_def)
  moreover have "listenerCalls ?w = []" by (simp add: new_Connection_def)
  ultimately show ?thesis
    using handshake_connects [of "''h:1''" "''h''" "''1''" sample_env 7 ?w "[123, 125]" 30 "''json''" "[(''r'', 9)]" 0]
    by fastforce
qed

text \<open>
  C40: an unusable handshake response is swallowed. From a connection that is ready to start, if the answer
  of the server is not the JSON the client wants, then after the receive nothing is pending and no listener
  has been called, the connection is not connected, and it stays so whatever the environment delivers: the
  application is never told that its attempt has failed.
\<close>

theorem unusable_handshake_is_silent:
  fixes w :: "('l, 'cb) connection"
  assumes "SplitHostAndPort address = Some (host, port)" and "e_resolve E host port = Inr ()"
    and "tid \<noteq> e_worker E" and "ready_to_start E w" and "length body \<le> 2044" and "\<not> IsCompressed body"
    and "parse_handshake (e_build E) (e_json E) (string_of_bytes body) = Inr None"
  shows "\<exists>w'.
     foldR (exec E) (take 5 (connect_events tid address (serialize (NewHandshake_range body)) now)) w = Inr w'
     \<and> st_val (state w') = Inited \<and> ioContext w' = [] \<and> listenerCalls w' = listenerCalls w
     \<and> (\<forall>cs. foldR (exec E) (map (\<lambda>(i, c, now). Completion i c now) cs) w' = Inr w')"
proof -
  let ?w = "w\<lparr>clock := now, packetStream := next_write (packetStream w),
            ioContext := [PendingReceive 0 2048 HandshakeResponseReceived]\<rparr>"
  have "stream_idle (packetStream ?w)"
    using assms(4) by (simp add: ready_to_start_def stream_idle_next_write)
  then have "stream_wf (packetStream ?w)" "pending_bytes (packetStream ?w) = []" "readBufferMaxSize (packetStream ?w) = 2048"
    by (simp_all add: stream_idle_def)
  from handshake_received [OF assms(5,6) this, of ?w E now] obtain s' where
    e: "exec E (Completion 0 (ReceiveDone ec_success (serialize (NewHandshake_range body))) now) ?w =
       SendHandshakeAck E (string_of_bytes body) (?w\<lparr>clock := now, packetStream := s', ioContext := []\<rparr>)"
    by auto
  let ?v = "?w\<lparr>clock := now, packetStream := s', ioContext := []\<rparr>"
  have i: "st_val (state w) = Inited" "\<not> st_mutex (state w)" using assms(4) by (simp_all add: ready_to_start_def)
  then have v: "SendHandshakeAck E (string_of_bytes body) ?v = Inr ?v"
    using assms(7) by (simp add: SendHandshakeAck_def ConnectionError_eq IsConnected_def)
  let ?ev = "connect_events tid address (serialize (NewHandshake_range body)) now :: ('l, 'cb) event list"
  have "take 5 ?ev = take 4 ?ev @ [Completion 0 (ReceiveDone ec_success (serialize (NewHandshake_range body))) now]"
    by (simp add: connect_events_def)
  moreover have "foldR (exec E) (take 4 ?ev) w = Inr ?w"
    by (rule handshake_sent_run [OF assms(1-4)])
  ultimately have run: "foldR (exec E) (take 5 ?ev) w = Inr ?v"
    using e v by (simp add: foldR_append del: exec.simps)
  have "foldR (exec E) (map (\<lambda>(i, c, now). Completion i c now) cs) ?v = Inr ?v" for cs
    by (rule idle_stays) simp
  with run i show ?thesis by (intro exI [of _ ?v]) simp
qed

theorem unusable_handshake_is_silent_witness:
  "\<exists>w :: (nat, nat) connection.
     foldR (exec sample_env) (take 5 (connect_events 7 ''h:1'' (serialize (NewHandshake_range [91, 93])) 0))
         (new_Connection sample_env) = Inr w
     \<and> st_val (state w) = Inited \<and> ioContext w = [] \<and> listenerCalls w = []"
proof -
  have "SplitHostAndPort ''h:1'' = Some (''h'', ''1'')" by code_simp
  moreover have "parse_handshake (e_build sample_env) (e_json sample_env) (string_of_bytes [91, 93]) = Inr None"
    by code_simp
  moreover have "e_resolve sample_env ''h'' ''1'' = Inr ()" and "7 \<noteq> e_worker sample_env"
    by (simp_all add: sample_env_def)
  moreover have "length [91 :: u8, 93] \<le> 2044" and "\<not> IsCompressed [91, 93]"
    by (simp_all add: IsCompressed_def)
  moreover have "listenerCalls (new_Connection sample_env :: (nat, nat) connection) = []" by (simp add: new_Connection_def)
  ultimately show ?thesis
    using unusable_handshake_is_silent [of "''h:1''" "''h''" "''1''" sample_env 7 "new_Connection sample_env" "[91, 93]" 0]
    by fastforce
qed

section \<open>Connecting again\<close>

text \<open>A session at rest: connected, with the two heartbeat waits and the next receive pending and an idle stream.\<close>

definition session_at_rest :: "('z, 'v) env \<Rightarrow> ('l, 'cb) connection \<Rightarrow> bool" where
  "session_at_rest E w \<longleftrightarrow> IsConnected (state w) \<and> \<not> st_mutex (state w) \<and> workerThreadId w = Some (e_worker E)
     \<and> ioContext w = [PendingWait HeartbeatTimer False, PendingWait HeartbeatTimeoutTimer False,
          PendingReceive 0 2048 PacketsReceived]
     \<and> stream_idle (packetStream w)"

text \<open>The receive fails; the waits, which the state machine has cancelled, complete with an error.\<close>

definition loss_events :: "error_code \<Rightarrow> error_code \<Rightarrow> int \<Rightarrow> ('l, 'cb) event list" where
  "loss_events ec aborted now =
     [Completion 2 (ReceiveDone ec []) now, Completion 0 (WaitDone aborted) now, Completion 0 (WaitDone aborted) now]"

lemma loss_run:
  assumes "session_at_rest E w" and "ec_failed ec" and "ec_failed aborted"
  obtains w' where "foldR (exec E) (loss_events ec aborted now) w = Inr w'" and "ready_to_start E w'"
    and "listenerCalls w' = listenerCalls w
       @ EventListeners_Broadcast (eventListeners w) EvConnectionError (ec_message (e_boost_message E) ec)"
    and "socketCalls w' = socketCalls w @ [SocketShutdown, SocketClose]" and "eventListeners w' = eventListeners w"
    and "inFlightRequests w' = inFlightRequests w" and "handlerCalls w' = handlerCalls w"
proof -
  let ?v = "w\<lparr>clock := now, ioContext := [PendingWait HeartbeatTimer False, PendingWait HeartbeatTimeoutTimer False]\<rparr>"
  let ?u = "disconnect (to_inited EvConnectionError (ec_message (e_boost_message E) ec) ?v)"
  let ?w' = "?u\<lparr>ioContext := [], clock := now\<rparr>"
  have w: "IsConnected (state w)" "\<not> st_mutex (state w)"
    "ioContext w = [PendingWait HeartbeatTimer False, PendingWait HeartbeatTimeoutTimer False,
          PendingReceive 0 2048 PacketsReceived]"
    using assms(1) by (simp_all add: session_at_rest_def)
  have io: "ioContext ?u = [PendingWait HeartbeatTimer True, PendingWait HeartbeatTimeoutTimer True]"
    by (simp add: to_inited_def disconnect_def broadcast_def set_state_def SetInited_def drop_heartbeat_timers_def supersede_def)
  have 1: "exec E (Completion 2 (ReceiveDone ec []) now) w = Inr ?u"
    using w assms(2)
    by (simp add: OnReceiveComplete_def run_receive_handler_def OnPacketsReceived_def ConnectionError_eq take_op_def
        start_ops_def)
  have "foldR (exec E) (loss_events ec aborted now) w = Inr ?w'"
    using 1 io assms(3)
    by (simp add: loss_events_def del: exec.simps)
      (simp add: OnHeartbeatTimer_def HeartbeatTick_def OnHeartbeatTimeout_def take_op_def)
  moreover have "ready_to_start E ?w'"
    using assms(1) by (simp add: session_at_rest_def ready_to_start_def)
  ultimately show thesis
    using that [of ?w'] by (simp add: disconnect_def to_inited_def broadcast_def set_state_def SetInited_def
        TcpPacketStream_Disconnect_def)
qed


lemma sample_session:
  "(let w = run_state handshake_run; s = packetStream w in
     (IsConnected (state w), st_mutex (state w), workerThreadId w, ioContext w)) =
   (True, False, Some 0, [PendingWait HeartbeatTimer False, PendingWait HeartbeatTimeoutTimer False,
      PendingReceive 0 2048 PacketsReceived])"
  "(let s = packetStream (run_state handshake_run) in
     (packetSendQueue s, writeBuffers s, readBufferMaxSize s, readBufferHead s, length (readBuffer s))) =
   ([], [], 2048, 0, 2048)"
  by code_simp+

lemma sample_session_at_rest: "session_at_rest sample_env (run_state handshake_run)"
  using sample_session
  by (simp add: session_at_rest_def stream_idle_def stream_wf_def pending_bytes_def sample_env_def Let_def)




end
