(* ===== verification/Connection_Construction.thy ===== *)
theory Connection_Construction
  imports Connection_Handshake
begin

text \<open>
  The constructor of \<^verbatim>\<open>Connection\<close> (\<^verbatim>\<open>src/connection.cpp\<close>) against the thread it starts. The members
  of a class are initialised in the order of their declaration (\<^verbatim>\<open>include/pitaya/connection.h\<close>), and
  the worker thread starts when \<^verbatim>\<open>_workerThread\<close> is initialised: from then on \<^verbatim>\<open>StartWorkerThread\<close> runs
  beside the rest of the constructor. Its first action is to write \<^verbatim>\<open>_workerThreadId\<close>, the very next member.
\<close>

section \<open>The two threads\<close>

datatype member =
    M_reqId | M_state | M_ioContext | M_work | M_packetStream | M_workerThread
  | M_workerThreadId | M_eventListeners | M_inFlightRequests

definition members :: "member list" where
  "members = [M_reqId, M_state, M_ioContext, M_work, M_packetStream, M_workerThread,
     M_workerThreadId, M_eventListeners, M_inFlightRequests]"

text \<open>The worker thread: not started, started, past its write to \<^verbatim>\<open>_workerThreadId\<close>.\<close>

datatype worker_pc = NotStarted | Started | Running

text \<open>
  The memory of \<^verbatim>\<open>_workerThreadId\<close> (\<open>None\<close>: the id of no thread), the members still to be initialised,
  and whether the worker has written to a member whose lifetime had not begun.
\<close>

record building =
  bd_todo :: "member list"
  bd_worker :: worker_pc
  bd_threadId :: "nat option"
  bd_early :: bool

definition building_start :: building where
  "building_start = \<lparr>bd_todo = members, bd_worker = NotStarted, bd_threadId = None, bd_early = False\<rparr>"

datatype ctor_event = InitNext | WorkerStep

definition init_member :: "member \<Rightarrow> building \<Rightarrow> building" where
  "init_member m b =
     (if m = M_workerThread then b\<lparr>bd_worker := Started\<rparr>
      else if m = M_workerThreadId then b\<lparr>bd_threadId := None\<rparr>
      else b)"

fun ctor_step :: "nat \<Rightarrow> ctor_event \<Rightarrow> building \<Rightarrow> building" where
  "ctor_step tid InitNext b =
     (case bd_todo b of
        [] \<Rightarrow> b
      | m # ms \<Rightarrow> init_member m (b\<lparr>bd_todo := ms\<rparr>))"
| "ctor_step tid WorkerStep b =
     (if bd_worker b = Started
      then b\<lparr>bd_worker := Running, bd_threadId := Some tid, bd_early := M_workerThreadId \<in> set (bd_todo b)\<rparr>
      else b)"

definition construct :: "nat \<Rightarrow> ctor_event list \<Rightarrow> building" where
  "construct tid es = fold (ctor_step tid) es building_start"

text \<open>The connection that comes out: all other members are as their initialisers say.\<close>

definition constructed :: "('z, 'v) env \<Rightarrow> ctor_event list \<Rightarrow> ('l, 'cb) connection" where
  "constructed E es = (new_Connection E)\<lparr>workerThreadId := bd_threadId (construct (e_worker E) es)\<rparr>"

section \<open>What comes out\<close>

definition inits :: "ctor_event list \<Rightarrow> nat" where
  "inits es = length (filter (\<lambda>e. e = InitNext) es)"

lemma inits_simps [simp]:
  "inits [] = 0" "inits (es @ [InitNext]) = Suc (inits es)" "inits (es @ [WorkerStep]) = inits es"
  by (simp_all add: inits_def)

text \<open>The worker has stepped while exactly the given number of members was initialised.\<close>

definition stepped_at :: "nat \<Rightarrow> ctor_event list \<Rightarrow> bool" where
  "stepped_at n es \<longleftrightarrow> (\<exists>xs ys. es = xs @ WorkerStep # ys \<and> inits xs = n)"

lemma stepped_at_simps [simp]:
  "\<not> stepped_at n []" "stepped_at n (es @ [InitNext]) = stepped_at n es"
  "stepped_at n (es @ [WorkerStep]) = (stepped_at n es \<or> inits es = n)"
proof -
  have split: "(es @ [e] = xs @ WorkerStep # ys) = (e = WorkerStep \<and> xs = es \<and> ys = [] \<or>
      (\<exists>zs. ys = zs @ [e] \<and> es = xs @ WorkerStep # zs))" for e xs ys
    by (cases ys rule: rev_cases) auto
  show "\<not> stepped_at n []" by (simp add: stepped_at_def)
  show "stepped_at n (es @ [InitNext]) = stepped_at n es"
    unfolding stepped_at_def split by auto
  show "stepped_at n (es @ [WorkerStep]) = (stepped_at n es \<or> inits es = n)"
    unfolding stepped_at_def split by auto
qed

text \<open>The state of the construction, read off the schedule.\<close>

definition tracks_ctor :: "nat \<Rightarrow> ctor_event list \<Rightarrow> building \<Rightarrow> bool" where
  "tracks_ctor tid es b \<longleftrightarrow>
     bd_todo b = drop (inits es) members
     \<and> bd_early b = stepped_at 6 es
     \<and> (bd_worker b = NotStarted \<longleftrightarrow> inits es < 6)
     \<and> (bd_early b \<longrightarrow> bd_worker b = Running)
     \<and> (bd_worker b = Running \<and> inits es \<le> 6 \<longrightarrow> bd_early b)
     \<and> bd_threadId b = (if bd_worker b = Running \<and> (inits es \<le> 6 \<or> \<not> bd_early b) then Some tid else None)"

lemma below_nine: "(n :: nat) < 9 \<Longrightarrow> n \<in> {0, 1, 2, 3, 4, 5, 6, 7, 8}"
  by auto

lemma members_drop:
  assumes "drop n members = m # ms"
  shows "drop (Suc n) members = ms" "m = M_workerThread \<longleftrightarrow> n = 5" "m = M_workerThreadId \<longleftrightarrow> n = 6"
proof -
  have "n < length members" using assms by (metis drop_eq_Nil list.distinct(1) not_le)
  then have "n \<in> {0, 1, 2, 3, 4, 5, 6, 7, 8}" by (intro below_nine) (simp add: members_def)
  with assms show "drop (Suc n) members = ms" "m = M_workerThread \<longleftrightarrow> n = 5" "m = M_workerThreadId \<longleftrightarrow> n = 6"
    by (auto simp: members_def)
qed

lemma workerThreadId_to_do: "M_workerThreadId \<in> set (drop n members) \<longleftrightarrow> n \<le> 6"
proof (cases "n < 9")
  case True
  from below_nine [OF this] show ?thesis by (auto simp: members_def)
qed (simp add: members_def)

lemma members_done: "drop n members = [] \<longleftrightarrow> 9 \<le> n"
  by (auto simp: members_def)

lemma tracks_init:
  assumes "tracks_ctor tid es b"
  shows "tracks_ctor tid (es @ [InitNext]) (ctor_step tid InitNext b)"
proof (cases "bd_todo b")
  case Nil
  with assms members_done [of "inits es"] members_done [of "Suc (inits es)"] show ?thesis
    by (auto simp: tracks_ctor_def)
next
  case (Cons m ms)
  with assms have "drop (inits es) members = m # ms" by (simp add: tracks_ctor_def)
  note m = members_drop [OF this]
  have step: "ctor_step tid InitNext b = init_member m (b\<lparr>bd_todo := ms\<rparr>)"
    using Cons by simp
  have f: "bd_early b = stepped_at 6 es" "bd_worker b = NotStarted \<longleftrightarrow> inits es < 6"
    "bd_early b \<longrightarrow> bd_worker b = Running" "bd_worker b = Running \<and> inits es \<le> 6 \<longrightarrow> bd_early b"
    "bd_threadId b = (if bd_worker b = Running \<and> (inits es \<le> 6 \<or> \<not> bd_early b) then Some tid else None)"
    using assms unfolding tracks_ctor_def by blast+
  consider "inits es = 5" | "inits es = 6" | "inits es \<noteq> 5" "inits es \<noteq> 6" by blast
  then show ?thesis
  proof cases
    case 1
    with f m(2) show ?thesis unfolding step tracks_ctor_def by (simp add: init_member_def m(1) [symmetric])
  next
    case 2
    with f m(2,3) show ?thesis unfolding step tracks_ctor_def by (auto simp: init_member_def m(1) [symmetric])
  next
    case 3
    with f m(2,3) have "init_member m (b\<lparr>bd_todo := ms\<rparr>) = b\<lparr>bd_todo := ms\<rparr>" by (simp add: init_member_def)
    moreover have "Suc (inits es) < 6 \<longleftrightarrow> inits es < 6" "Suc (inits es) \<le> 6 \<longleftrightarrow> inits es \<le> 6"
      using 3 by arith+
    moreover have "bd_todo (b\<lparr>bd_todo := ms\<rparr>) = ms" "bd_early (b\<lparr>bd_todo := ms\<rparr>) = bd_early b"
      "bd_worker (b\<lparr>bd_todo := ms\<rparr>) = bd_worker b" "bd_threadId (b\<lparr>bd_todo := ms\<rparr>) = bd_threadId b" by simp_all
    ultimately show ?thesis
      unfolding step tracks_ctor_def by (simp only: inits_simps stepped_at_simps m(1)) (intro conjI refl f)
  qed
qed

lemma tracks_worker:
  assumes "tracks_ctor tid es b"
  shows "tracks_ctor tid (es @ [WorkerStep]) (ctor_step tid WorkerStep b)"
  using assms by (cases "bd_worker b") (auto simp: tracks_ctor_def workerThreadId_to_do)

lemma construct_tracks: "tracks_ctor tid es (construct tid es)"
proof (induction es rule: rev_induct)
  case Nil
  show ?case by (simp add: construct_def building_start_def tracks_ctor_def)
next
  case (snoc e es)
  then show ?case
    by (cases e) (simp_all add: construct_def tracks_init tracks_worker del: ctor_step.simps)
qed

section \<open>Properties\<close>

text \<open>
  C29: the constructor races with the thread it starts. Once the constructor and the first action of the worker
  thread are both over, in whatever order their steps came: either the worker wrote its id after
  \<^verbatim>\<open>_workerThreadId\<close> was initialised, and the connection is the one the model of the constructor gives; or
  it wrote when exactly the members up to \<^verbatim>\<open>_workerThread\<close> were initialised, to a member that did not exist yet,
  whose initialisation then wiped the id out. In the second case a debug build aborts when the first
  connection attempt completes, whatever its result.
\<close>

theorem construction_race:
  fixes E :: "('z, 'v) env"
  assumes "bd_todo (construct (e_worker E) es) = []" and "bd_worker (construct (e_worker E) es) = Running"
  shows "bd_early (construct (e_worker E) es) = stepped_at 6 es
    \<and> (\<not> stepped_at 6 es \<longrightarrow> constructed E es = (new_Connection E :: ('l, 'cb) connection))
    \<and> (stepped_at 6 es \<and> e_build E = Debug \<and> SplitHostAndPort address = Some (host, port)
         \<and> e_resolve E host port = Inr () \<longrightarrow>
       foldR (exec E) [UserStart tid address, Completion 0 (ConnectDone ec) now]
         (constructed E es :: ('l, 'cb) connection) = Inl (AssertFailed ''worker thread''))"
proof -
  let ?b = "construct (e_worker E) es"
  have t: "tracks_ctor (e_worker E) es ?b" by (rule construct_tracks)
  then have "9 \<le> inits es" using assms(1) members_done [of "inits es"] by (simp add: tracks_ctor_def)
  with t assms(2) have early: "bd_early ?b = stepped_at 6 es"
    and id: "bd_threadId ?b = (if stepped_at 6 es then None else Some (e_worker E))"
    by (auto simp: tracks_ctor_def)
  have "constructed E es = (new_Connection E :: ('l, 'cb) connection)" if "\<not> stepped_at 6 es"
    using that id by (simp add: constructed_def new_Connection_def)
  moreover have "foldR (exec E) [UserStart tid address, Completion 0 (ConnectDone ec) now]
         (constructed E es :: ('l, 'cb) connection) = Inl (AssertFailed ''worker thread'')"
    if "stepped_at 6 es" "e_build E = Debug" "SplitHostAndPort address = Some (host, port)" "e_resolve E host port = Inr ()"
    using that id
    by (simp add: constructed_def new_Connection_def Start_def TcpPacketStream_Connect_def start_ops_def OnConnect_def take_op_def)
  ultimately show ?thesis using early by blast
qed

text \<open>The worker thread is quicker than the constructor.\<close>

theorem construction_race_witness:
  "foldR (exec sample_env) [UserStart 7 ''h:1'', Completion 0 (ConnectDone ec_success) 0]
     (constructed sample_env (replicate 6 InitNext @ [WorkerStep] @ replicate 3 InitNext) :: (nat, nat) connection) =
   Inl (AssertFailed ''worker thread'')"
proof -
  let ?es = "replicate 6 InitNext @ [WorkerStep] @ replicate 3 InitNext"
  have "bd_todo (construct (e_worker sample_env) ?es) = []" "bd_worker (construct (e_worker sample_env) ?es) = Running"
    by code_simp+
  moreover have "stepped_at 6 ?es"
    unfolding stepped_at_def
    by (rule exI [of _ "replicate 6 InitNext"], rule exI [of _ "replicate 3 InitNext"]) (simp add: inits_def)
  moreover have "SplitHostAndPort ''h:1'' = Some (''h'', ''1'')" by code_simp
  moreover have "e_build sample_env = Debug" "e_resolve sample_env ''h'' ''1'' = Inr ()" by (simp_all add: sample_env_def)
  ultimately show ?thesis
    using construction_race [of sample_env ?es "''h:1''" "''h''" "''1''" 7 ec_success 0] by blast
qed

end
