(* ===== verification/Client.thy ===== *)
theory Client
  imports Connection_Handshake
begin

text \<open>
  \<^verbatim>\<open>include/pitaya.h\<close> and \<^verbatim>\<open>src/pitaya.cpp\<close>: the class the application uses. It owns a connection
  and forwards to it. The section on requests follows one request through every component, from the
  call of the application to the call of its handler.
\<close>

section \<open>The facade\<close>

record ('l, 'cb) Client =
  c_connection :: "('l, 'cb) connection"

definition new_Client :: "('z, 'v) env \<Rightarrow> ('l, 'cb) Client" where
  "new_Client E = \<lparr>c_connection = new_Connection E\<rparr>"

definition Client_Connect ::
  "('z, 'v) env \<Rightarrow> nat \<Rightarrow> string \<Rightarrow> ('l, 'cb) Client \<Rightarrow> ('l, 'cb) Client result"
where
  "Client_Connect E tid address c =
     bindR (Start E tid address (c_connection c)) (\<lambda>w. Inr (c\<lparr>c_connection := w\<rparr>))"

definition Client_AddEventListener :: "'l \<Rightarrow> ('l, 'cb) Client \<Rightarrow> ('l, 'cb) Client result" where
  "Client_AddEventListener l c =
     bindR (AddEventListener l (c_connection c)) (\<lambda>w. Inr (c\<lparr>c_connection := w\<rparr>))"

text \<open>The two overloads of \<^verbatim>\<open>Client::Request\<close>, without data and with data.\<close>

definition Client_Request_empty :: "string \<Rightarrow> int \<Rightarrow> 'cb \<Rightarrow> ('l, 'cb) Client \<Rightarrow> ('l, 'cb) Client" where
  "Client_Request_empty route timeout handler c =
     c\<lparr>c_connection := PostRequest route [] timeout handler (c_connection c)\<rparr>"

definition Client_Request ::
  "string \<Rightarrow> bytes \<Rightarrow> int \<Rightarrow> 'cb \<Rightarrow> ('l, 'cb) Client \<Rightarrow> ('l, 'cb) Client"
where
  "Client_Request route data timeout handler c =
     c\<lparr>c_connection := PostRequest route data timeout handler (c_connection c)\<rparr>"

section \<open>A request from call to answer\<close>

text \<open>The packet of a request: the flag, the number and the two bytes of the code of the route.\<close>

definition request_packet :: "u64 \<Rightarrow> i32 \<Rightarrow> Packet" where
  "request_packet i code =
     NewData_range (1 # encode_id i @ [ucast (signed_drop_bit 8 code AND 255), ucast (code AND 255)])"

text \<open>
  A connection that is ready for a request: connected, with the route in its dictionary, nothing
  queued, the next request number and the next write number free, and an empty read buffer.
\<close>

definition request_ready :: "('z, 'v) env \<Rightarrow> string \<Rightarrow> i32 \<Rightarrow> ('l, 'cb) connection \<Rightarrow> bool" where
  "request_ready E route code w \<longleftrightarrow>
     (case st_val (state w) of
        Inited \<Rightarrow> False
      | Connected c \<Rightarrow> um_find (routeToCode c) route = Some code)
     \<and> \<not> st_mutex (state w) \<and> workerThreadId w = Some (e_worker E)
     \<and> um_find (inFlightRequests w) (reqId w) = None
     \<and> packetSendQueue (packetStream w) = []
     \<and> um_find (writeBuffers (packetStream w)) (writeId (packetStream w) + 1) = None
     \<and> stream_wf (packetStream w) \<and> pending_bytes (packetStream w) = []"

text \<open>The state once the request has been written: in flight, with its timer, and nothing called.\<close>

definition request_sent ::
  "string \<Rightarrow> bytes \<Rightarrow> int \<Rightarrow> 'cb \<Rightarrow> Packet \<Rightarrow> int \<Rightarrow> ('l, 'cb) connection \<Rightarrow> ('l, 'cb) connection"
where
  "request_sent route data timeout handler p now w =
     w\<lparr>reqId := reqId w + 1, clock := now, postedRequests := postedRequests w @ [handler],
       packetStream := (packetStream w)\<lparr>packetSendQueue := [], writeId := writeId (packetStream w) + 1,
         writeBuffers := um_erase (writeId (packetStream w))
           (um_set (writeId (packetStream w)) (serialize p) (writeBuffers (packetStream w)))\<rparr>,
       inFlightRequests := um_insert (reqId w) (new_Request handler timeout) (inFlightRequests w),
       ioContext := ioContext w @ [PendingWait (RequestTimer (reqId w)) False]\<rparr>"

lemma request_written:
  fixes w :: "('l, 'cb) connection"
  assumes "request_ready E route code w" and "n = length (ioContext w)"
  shows "foldR (exec E) [Completion n Run now, Completion n Run now, Completion n (SendDone ec_success k) now]
       (PostRequest route data timeout handler w) =
     Inr (request_sent route data timeout handler (request_packet (reqId w) code) now w)"
proof -
  obtain c where c: "st_val (state w) = Connected c" "um_find (routeToCode c) route = Some code"
    using assms(1) by (auto simp: request_ready_def split: StateType.splits)
  let ?p = "request_packet (reqId w) code" and ?s = "packetStream w"
  let ?h = "RequestSent timeout (NewRequest (reqId w) route data) handler"
  let ?a = "w\<lparr>reqId := reqId w + 1, clock := now, postedRequests := postedRequests w @ [handler],
      packetStream := ?s\<lparr>packetSendQueue := [?p]\<rparr>, ioContext := ioContext w @ [PostedSendNext ?h]\<rparr>"
  let ?b = "?a\<lparr>packetStream := ?s\<lparr>packetSendQueue := [], writeId := writeId ?s + 1, writeBuffers := um_set (writeId ?s) (serialize ?p) (writeBuffers ?s)\<rparr>,
      ioContext := ioContext w @ [PendingSend (writeId ?s) (serialize ?p) ?h]\<rparr>"
  have q: "packetSendQueue ?s = []" using assms(1) by (simp add: request_ready_def)
  have 1: "exec E (Completion n Run now) (PostRequest route data timeout handler w) = Inr ?a"
    using assms c q serialize_request [OF c(2), of "reqId w" data "[]"]
    by (simp add: request_ready_def PostRequest_def RunPostedRequest_def NewData_def send_packet_def
        SendPacket_def start_ops_def take_op_def request_packet_def NewData_range_def)
  have 2: "exec E (Completion n Run now) ?a = Inr ?b"
    using assms q by (simp add: request_ready_def SendNextPacket_def Let_def start_ops_def take_op_def)
  have 3: "exec E (Completion n (SendDone ec_success k) now) ?b =
      Inr (request_sent route data timeout handler ?p now w)"
    using assms by (simp add: request_ready_def OnSendComplete_def run_send_handler_def OnRequestSent_def
        NewRequest_def start_ops_def take_op_def update_stream_def request_sent_def)
  show ?thesis by (simp only: foldR.simps 1 2 3 bindR_Inr)
qed

lemma answer_received:
  fixes w :: "('l, 'cb) connection"
  assumes "st_val (state w) = Connected c" and "um_find (inFlightRequests w) i = Some req"
    and "j < length (ioContext w)" and "ioContext w ! j = PendingReceive 0 2048 PacketsReceived"
    and "stream_wf (packetStream w)" and "pending_bytes (packetStream w) = []"
    and "readBufferMaxSize (packetStream w) = 2048"
    and "answer = serialize (NewData_range (4 # encode_id i @ reply))" and "length answer \<le> 2048"
  shows "\<exists>w'. exec E (Completion j (ReceiveDone ec_success answer) now) w = Inr w'
     \<and> um_find (inFlightRequests w') i = None
     \<and> handlerCalls w' = handlerCalls w @ [(r_handler req, Ok, reply)]
     \<and> IsConnected (state w') \<and> PendingReceive 0 2048 PacketsReceived \<in> set (ioContext w')"
proof -
  let ?p = "NewData_range (4 # encode_id i @ reply)"
  have len: "length (serialize ?p) \<le> readBufferMaxSize (packetStream w)"
    using assms(7-9) by simp
  then have sp: "server_packet ?p"
    using assms(7) by (simp add: server_packet_def NewData_range_def Packet_SerializeInto_def)
  obtain s where r: "OnReceiveComplete (e_build E) PacketsReceived 0 ec_success answer (packetStream w) =
        Inr (s, Some (ec_success, [?p]), [] :: 'cb op list)"
    and s: "pending_bytes s = []" "stream_wf s" "readBufferMaxSize s = 2048"
    using OnReceive_one_packet [OF sp len assms(5,6), where h = PacketsReceived] assms(7,8) by auto
  have idle: "readBufferHead s = 0" "readBuffer s \<noteq> []" "length (readBuffer s) = 2048"
    using s length_pending_bytes [OF s(2)] by (auto simp: stream_wf_def)
  let ?v = "start_ops [] ((take_op j w)\<lparr>clock := now, packetStream := s\<rparr>)"
  let ?m = "\<lparr>m_type = Response, m_id = i, m_route = [], m_data = reply, m_error = False\<rparr>"
  let ?w' = "start_ops [PendingReceive 0 2048 PacketsReceived] (ProcessMessage ?m ?v)"
  have pm: "ProcessMessage ?m ?v = erase_request i (call_handler (r_handler req) Ok reply ?v)"
    using assms(2) by (simp add: ProcessMessage_def)
  have "ProcessPacket E ?p ?v = Inr (ProcessMessage ?m ?v)"
    using ProcessPacket_response [of ?v c E False i reply] assms(1) by simp
  moreover have "receive_packets PacketsReceived (ProcessMessage ?m ?v) = Inr ?w'"
    using idle by (simp add: receive_packets_Inr pm)
  ultimately have "exec E (Completion j (ReceiveDone ec_success answer) now) w = Inr ?w'"
    using assms(3,4) r by (simp add: run_receive_handler_def OnPacketsReceived_def)
  with assms(1) show ?thesis
    by (intro exI [of _ ?w']) (simp add: pm um_simps IsConnected_def)
qed

lemma posted_request_answered:
  fixes w :: "('l, 'cb) connection"
  assumes "request_ready E route code w" and "n = length (ioContext w)"
    and "j < n" and "ioContext w ! j = PendingReceive 0 2048 PacketsReceived"
    and "readBufferMaxSize (packetStream w) = 2048"
    and "answer = serialize (NewData_range (4 # encode_id (reqId w) @ reply))"
    and "length answer \<le> 2048"
  shows "\<exists>w1 w2.
     foldR (exec E) [Completion n Run now, Completion n Run now, Completion n (SendDone ec_success k) now]
       (PostRequest route data timeout handler w) = Inr w1
     \<and> um_find (inFlightRequests w1) (reqId w) = Some (new_Request handler timeout)
     \<and> handlerCalls w1 = handlerCalls w
     \<and> exec E (Completion j (ReceiveDone ec_success answer) now) w1 = Inr w2
     \<and> um_find (inFlightRequests w2) (reqId w) = None
     \<and> handlerCalls w2 = handlerCalls w @ [(handler, Ok, reply)]
     \<and> IsConnected (state w2) \<and> PendingReceive 0 2048 PacketsReceived \<in> set (ioContext w2)"
proof -
  let ?w1 = "request_sent route data timeout handler (request_packet (reqId w) code) now w"
  have ready: "um_find (inFlightRequests w) (reqId w) = None" "stream_wf (packetStream w)"
    "pending_bytes (packetStream w) = []"
    using assms(1) by (auto simp: request_ready_def)
  obtain c where c: "st_val (state ?w1) = Connected c"
    using assms(1) by (auto simp: request_ready_def request_sent_def split: StateType.splits)
  have fl: "um_find (inFlightRequests ?w1) (reqId w) = Some (new_Request handler timeout)"
    and wf: "stream_wf (packetStream ?w1)" "pending_bytes (packetStream ?w1) = []"
      "readBufferMaxSize (packetStream ?w1) = 2048"
    and op: "j < length (ioContext ?w1)" "ioContext ?w1 ! j = PendingReceive 0 2048 PacketsReceived"
    and calls: "handlerCalls ?w1 = handlerCalls w"
    using ready assms(2-5)
    by (simp_all add: request_sent_def stream_wf_def pending_bytes_def um_simps nth_append)
  show ?thesis
    using request_written [OF assms(1,2), of now k data timeout handler] fl calls
      answer_received [OF c fl op wf assms(6,7), of E now]
    by auto
qed

text \<open>
  C4: a request is answered, through all components. On a client whose connection is ready for the
  route, \<^verbatim>\<open>Client::Request\<close> followed by the posted task, the send task, the completed write and
  the arrival of the server's response calls the handler exactly once, with \<open>Ok\<close> and the reply of
  the server; the number is then free, the connection still connected, and the next receive pending.
  Before the response, the request was in flight with the timeout the application asked for.
\<close>

theorem request_answered:
  fixes cl :: "('l, 'cb) Client"
  assumes "request_ready E route code (c_connection cl)" and "n = length (ioContext (c_connection cl))"
    and "j < n" and "ioContext (c_connection cl) ! j = PendingReceive 0 2048 PacketsReceived"
    and "readBufferMaxSize (packetStream (c_connection cl)) = 2048"
    and "answer = serialize (NewData_range (4 # encode_id (reqId (c_connection cl)) @ reply))"
    and "length answer \<le> 2048"
  shows "\<exists>w1 w2.
     foldR (exec E) [Completion n Run now, Completion n Run now, Completion n (SendDone ec_success k) now]
       (c_connection (Client_Request route data timeout handler cl)) = Inr w1
     \<and> um_find (inFlightRequests w1) (reqId (c_connection cl)) = Some (new_Request handler timeout)
     \<and> handlerCalls w1 = handlerCalls (c_connection cl)
     \<and> exec E (Completion j (ReceiveDone ec_success answer) now) w1 = Inr w2
     \<and> um_find (inFlightRequests w2) (reqId (c_connection cl)) = None
     \<and> handlerCalls w2 = handlerCalls (c_connection cl) @ [(handler, Ok, reply)]
     \<and> IsConnected (state w2) \<and> PendingReceive 0 2048 PacketsReceived \<in> set (ioContext w2)"
  using posted_request_answered [OF assms] by (simp add: Client_Request_def)

text \<open>The connection after the sample run is ready for a further request.\<close>

lemma sample_run_idle:
  "(let w = run_state (handshake_run @ request_run); s = packetStream w in
     (workerThreadId w, reqId w, packetSendQueue s, writeBuffers s, readBufferMaxSize s, readBufferHead s,
      length (readBuffer s))) =
   (Some 0, 2, [], [], 2048, 0, 2048)"
  by code_simp

lemma sample_ready: "request_ready sample_env ''r'' 9 (run_state (handshake_run @ request_run))"
  using sample_run_idle
  by (simp add: request_ready_def sample_run_state new_connected_def um_find_def stream_wf_def
      pending_bytes_def sample_env_def Let_def)

theorem request_answered_witness:
  "\<exists>w1 w2.
     foldR (exec sample_env) [Completion 4 Run 0, Completion 4 Run 0, Completion 4 (SendDone ec_success 8) 0]
       (c_connection (Client_Request ''r'' [1, 2] 5 88 \<lparr>c_connection = run_state (handshake_run @ request_run)\<rparr>)) = Inr w1
     \<and> exec sample_env (Completion 2 (ReceiveDone ec_success [4, 0, 0, 3, 4, 2, 55]) 0) w1 = Inr w2
     \<and> handlerCalls w2 = [(88, Ok, [55])]"
proof -
  let ?cl = "\<lparr>c_connection = run_state (handshake_run @ request_run)\<rparr> :: (nat, nat) Client"
  have n: "4 = length (ioContext (c_connection ?cl))" "2 < (4 :: nat)"
    and op: "ioContext (c_connection ?cl) ! 2 = PendingReceive 0 2048 PacketsReceived"
    and none: "handlerCalls (c_connection ?cl) = []"
    by (simp_all add: sample_run_state)
  have i: "reqId (c_connection ?cl) = 2" and max: "readBufferMaxSize (packetStream (c_connection ?cl)) = 2048"
    using sample_run_idle by (simp_all add: Let_def)
  have answer: "[4, 0, 0, 3, 4, 2, 55] = serialize (NewData_range (4 # encode_id (reqId (c_connection ?cl)) @ [55]))"
    unfolding i by code_simp
  have ready: "request_ready sample_env ''r'' 9 (c_connection ?cl)" using sample_ready by simp
  show ?thesis
    using request_answered [OF ready n op max answer, of 0 8 "[1, 2]" 5 88] unfolding none by fastforce
qed

section \<open>Data of requests\<close>

lemma RunPostedRequest_data: "RunPostedRequest E tid route data = RunPostedRequest E tid route []"
  unfolding RunPostedRequest_def NewRequest_def ..


end
