(* ===== verification/Listener_Race.thy ===== *)
theory Listener_Race
  imports Events
begin

text \<open>
  The list of listeners of \<^verbatim>\<open>include/pitaya/connection/event.h\<close> under concurrent use. \<^verbatim>\<open>Broadcast\<close>
  iterates over the vector without the mutex, so that between two of its calls a thread of the
  application, or the listener that is being called, can add a listener. Here the vector has its block of
  memory: \<^verbatim>\<open>push_back\<close> on a full vector moves the elements to a new block and frees the old one, while
  the iterators of the loop keep pointing into the old one. (The other theories let a broadcast run in one
  piece, which is what happens when listeners are added before the connection is started.)
\<close>

section \<open>The vector and the loop\<close>

text \<open>Blocks are told apart by a number that is never used again; \<open>grow\<close> is the growth policy of the library.\<close>

record 'l vector =
  v_block :: nat
  v_capacity :: nat
  v_items :: "'l list"

definition push_back :: "(nat \<Rightarrow> nat) \<Rightarrow> 'l \<Rightarrow> 'l vector \<Rightarrow> 'l vector" where
  "push_back grow l v =
     (if length (v_items v) < v_capacity v then v\<lparr>v_items := v_items v @ [l]\<rparr>
      else v\<lparr>v_block := v_block v + 1, v_capacity := grow (v_capacity v), v_items := v_items v @ [l]\<rparr>)"

text \<open>The loop of \<^verbatim>\<open>Broadcast\<close>: the range of its iterators is fixed when it starts.\<close>

record 'l broadcasting =
  bc_vector :: "'l vector"
  bc_block :: nat
  bc_next :: nat
  bc_end :: nat
  bc_calls :: "('l \<times> Event \<times> string) list"

definition Broadcast_begin :: "'l vector \<Rightarrow> 'l broadcasting" where
  "Broadcast_begin v =
     \<lparr>bc_vector = v, bc_block = v_block v, bc_next = 0, bc_end = length (v_items v), bc_calls = []\<rparr>"

datatype 'l race_event = AddListener 'l | NextListener

fun race_step ::
  "(nat \<Rightarrow> nat) \<Rightarrow> Event \<Rightarrow> string \<Rightarrow> 'l race_event \<Rightarrow> 'l broadcasting \<Rightarrow> 'l broadcasting result"
where
  "race_step grow ev msg (AddListener l) b = Inr (b\<lparr>bc_vector := push_back grow l (bc_vector b)\<rparr>)"
| "race_step grow ev msg NextListener b =
     (if bc_next b = bc_end b then Inr b
      else if bc_block b \<noteq> v_block (bc_vector b) then Inl (UndefinedBehaviour ''iterator into a freed block'')
      else Inr (b\<lparr>bc_next := bc_next b + 1,
                  bc_calls := bc_calls b @ [(v_items (bc_vector b) ! bc_next b, ev, msg)]\<rparr>))"

section \<open>What can happen\<close>

fun listener_added :: "'l race_event \<Rightarrow> 'l list" where
  "listener_added (AddListener l) = [l]"
| "listener_added NextListener = []"

definition added :: "'l race_event list \<Rightarrow> 'l list" where
  "added es = concat (map listener_added es)"

definition turns :: "'l race_event list \<Rightarrow> nat" where
  "turns es = length (filter (\<lambda>e. e = NextListener) es)"

lemma added_simps [simp]:
  "added [] = []" "added (es @ [AddListener l]) = added es @ [l]" "added (es @ [NextListener]) = added es"
  by (simp_all add: added_def)

lemma turns_simps [simp]:
  "turns [] = 0" "turns (es @ [AddListener l]) = turns es" "turns (es @ [NextListener]) = Suc (turns es)"
  by (simp_all add: turns_def)

text \<open>The loop reads a freed block: listeners were added beyond the capacity and one is still to be called.\<close>

definition reads_freed :: "'l vector \<Rightarrow> 'l race_event list \<Rightarrow> bool" where
  "reads_freed v es \<longleftrightarrow> (\<exists>xs ys. es = xs @ NextListener # ys \<and> turns xs < length (v_items v) \<and>
     length (v_items v) + length (added xs) > v_capacity v)"

lemma reads_freed_snoc:
  "\<not> reads_freed v []"
  "reads_freed v (es @ [AddListener l]) = reads_freed v es"
  "reads_freed v (es @ [NextListener]) = (reads_freed v es \<or>
     turns es < length (v_items v) \<and> length (v_items v) + length (added es) > v_capacity v)"
proof -
  have split: "(es @ [e] = xs @ NextListener # ys) = (e = NextListener \<and> xs = es \<and> ys = [] \<or>
      (\<exists>zs. ys = zs @ [e] \<and> es = xs @ NextListener # zs))" for e and xs ys
    by (cases ys rule: rev_cases) auto
  show "\<not> reads_freed v []" by (simp add: reads_freed_def)
  show "reads_freed v (es @ [AddListener l]) = reads_freed v es"
    unfolding reads_freed_def split by auto
  show "reads_freed v (es @ [NextListener]) = (reads_freed v es \<or>
     turns es < length (v_items v) \<and> length (v_items v) + length (added es) > v_capacity v)"
    unfolding reads_freed_def split by auto
qed

definition calls_of :: "'l vector \<Rightarrow> Event \<Rightarrow> string \<Rightarrow> ('l \<times> Event \<times> string) list" where
  "calls_of v ev msg = EventListeners_Broadcast \<lparr>el_mutex = False, el_listeners = v_items v\<rparr> ev msg"

definition tracks :: "'l vector \<Rightarrow> Event \<Rightarrow> string \<Rightarrow> 'l race_event list \<Rightarrow> 'l broadcasting \<Rightarrow> bool" where
  "tracks v ev msg es b \<longleftrightarrow>
     bc_block b = v_block v \<and> bc_end b = length (v_items v) \<and> bc_next b = min (turns es) (length (v_items v)) \<and>
     bc_calls b = take (turns es) (calls_of v ev msg) \<and> v_items (bc_vector b) = v_items v @ added es \<and>
     v_block v \<le> v_block (bc_vector b) \<and>
     (v_block (bc_vector b) = v_block v \<longleftrightarrow> length (v_items v) + length (added es) \<le> v_capacity v) \<and>
     (v_block (bc_vector b) = v_block v \<longrightarrow> v_capacity (bc_vector b) = v_capacity v)"

lemma tracks_add:
  "tracks v ev msg es b \<Longrightarrow> tracks v ev msg (es @ [AddListener l]) (b\<lparr>bc_vector := push_back grow l (bc_vector b)\<rparr>)"
  by (auto simp: tracks_def push_back_def)

lemma tracks_next:
  assumes "tracks v ev msg es b"
  shows "turns es < length (v_items v) \<and> length (v_items v) + length (added es) > v_capacity v \<Longrightarrow>
      isl (race_step grow ev msg NextListener b)"
    and "\<not> (turns es < length (v_items v) \<and> length (v_items v) + length (added es) > v_capacity v) \<Longrightarrow>
      \<exists>b'. race_step grow ev msg NextListener b = Inr b' \<and> tracks v ev msg (es @ [NextListener]) b'"
proof -
  let ?n = "length (v_items v)"
  have calls: "length (calls_of v ev msg) = ?n" "i < ?n \<Longrightarrow> calls_of v ev msg ! i = (v_items v ! i, ev, msg)" for i
    by (simp_all add: calls_of_def EventListeners_Broadcast_def)
  show "turns es < ?n \<and> ?n + length (added es) > v_capacity v \<Longrightarrow> isl (race_step grow ev msg NextListener b)"
    using assms by (auto simp: tracks_def)
  assume ok: "\<not> (turns es < ?n \<and> ?n + length (added es) > v_capacity v)"
  show "\<exists>b'. race_step grow ev msg NextListener b = Inr b' \<and> tracks v ev msg (es @ [NextListener]) b'"
  proof (cases "turns es < ?n")
    case True
    with ok assms calls show ?thesis
      by (auto simp: tracks_def min_def nth_append take_Suc_conv_app_nth)
  next
    case False
    with assms calls show ?thesis by (auto simp: tracks_def min_def)
  qed
qed

lemma race_run:
  assumes "length (v_items v) \<le> v_capacity v"
  shows "if reads_freed v es then isl (foldR (race_step grow ev msg) es (Broadcast_begin v))
    else \<exists>b. foldR (race_step grow ev msg) es (Broadcast_begin v) = Inr b \<and> tracks v ev msg es b"
proof (induction es rule: rev_induct)
  case Nil
  show ?case using assms by (simp add: reads_freed_snoc tracks_def Broadcast_begin_def)
next
  case (snoc e es)
  show ?case
  proof (cases "reads_freed v es")
    case True
    with snoc have "isl (foldR (race_step grow ev msg) (es @ [e]) (Broadcast_begin v))"
      by (auto simp: foldR_append isl_def)
    with True show ?thesis by (cases e) (simp_all add: reads_freed_snoc)
  next
    case False
    with snoc obtain b where b: "foldR (race_step grow ev msg) es (Broadcast_begin v) = Inr b" "tracks v ev msg es b"
      by auto
    then have r: "foldR (race_step grow ev msg) (es @ [e]) (Broadcast_begin v) = race_step grow ev msg e b"
      by (simp add: foldR_append bindR_def split: sum.split)
    show ?thesis
    proof (cases e)
      case (AddListener l)
      with False b(2) show ?thesis unfolding r by (simp add: reads_freed_snoc tracks_add)
    next
      case NextListener
      with False tracks_next [OF b(2), of grow] show ?thesis
        unfolding r by (auto simp: reads_freed_snoc simp del: race_step.simps)
    qed
  qed
qed

section \<open>Properties\<close>

text \<open>
  C28: adding a listener during a broadcast can destroy the list under the loop. Let listeners be added
  between the calls of a broadcast in any order. The loop reads freed memory exactly if, at some turn,
  more listeners have been added than the vector had room for and one of the old listeners is still to
  be called. Otherwise the broadcast calls exactly the listeners it found when it started, in order, and the
  new ones are in the list for the next one.
\<close>

theorem add_during_broadcast:
  assumes "length (v_items v) \<le> v_capacity v"
  shows "(isl (foldR (race_step grow ev msg) es (Broadcast_begin v)) \<longleftrightarrow>
      (\<exists>xs ys. es = xs @ NextListener # ys \<and> turns xs < length (v_items v) \<and>
         length (v_items v) + length (added xs) > v_capacity v))
    \<and> (\<forall>b. foldR (race_step grow ev msg) es (Broadcast_begin v) = Inr b \<longrightarrow>
         bc_calls b = take (turns es)
           (EventListeners_Broadcast \<lparr>el_mutex = False, el_listeners = v_items v\<rparr> ev msg) \<and>
         v_items (bc_vector b) = v_items v @ added es)"
proof (cases "reads_freed v es")
  case True
  then show ?thesis
    using race_run [OF assms, of es grow ev msg] unfolding reads_freed_def [symmetric] by (auto simp: isl_def)
next
  case False
  then show ?thesis
    using race_run [OF assms, of es grow ev msg] unfolding reads_freed_def [symmetric]
    by (auto simp: tracks_def calls_of_def)
qed

text \<open>
  With the doubling growth of the usual libraries two listeners fill their vector: if a third one is added
  after the first call, the read of the second is undefined. With room for four it is called.
\<close>

theorem add_during_broadcast_witness:
  "let es = [NextListener, AddListener 9, NextListener];
       run = (\<lambda>c. foldR (race_step (\<lambda>n. 2 * n) EvConnected ''m'') es
                (Broadcast_begin \<lparr>v_block = 0, v_capacity = c, v_items = [7, 8 :: nat]\<rparr>))
   in isl (run 2) \<and> (\<exists>b. run 4 = Inr b \<and> bc_calls b = [(7, EvConnected, ''m''), (8, EvConnected, ''m'')])"
proof -
  let ?es = "[NextListener, AddListener 9, NextListener] :: nat race_event list"
  let ?v = "\<lambda>c. \<lparr>v_block = 0, v_capacity = c, v_items = [7, 8 :: nat]\<rparr>"
  let ?run = "\<lambda>c. foldR (race_step (\<lambda>n. 2 * n) EvConnected ''m'') ?es (Broadcast_begin (?v c))"
  have "?es = [NextListener, AddListener 9] @ NextListener # []
      \<and> turns [NextListener, AddListener (9 :: nat)] < length (v_items (?v 2))
      \<and> length (v_items (?v 2)) + length (added [NextListener, AddListener (9 :: nat)]) > v_capacity (?v 2)"
    by (simp add: turns_def added_def)
  moreover have "length (v_items (?v 2)) \<le> v_capacity (?v 2)" by simp
  ultimately have freed: "isl (?run 2)"
    using add_during_broadcast [of "?v 2" "\<lambda>n. 2 * n" EvConnected "''m''" ?es] by blast
  have "\<not> isl (?run 4)" by code_simp
  then obtain b where b: "?run 4 = Inr b" using sum.collapse(2) by metis
  have "turns ?es = 2" by (simp add: turns_def)
  with b have "bc_calls b = [(7, EvConnected, ''m''), (8, EvConnected, ''m'')]"
    using add_during_broadcast [of "?v 4" "\<lambda>n. 2 * n" EvConnected "''m''" ?es]
    by (simp add: EventListeners_Broadcast_def del: foldR.simps)
  with b show ?thesis using freed by (simp add: Let_def del: foldR.simps)
qed

end
