(* ===== verification/Logger.thy ===== *)
theory Logger
  imports Prelude
begin

text \<open>
  \<^verbatim>\<open>src/logger.h\<close>: the logger. \<^verbatim>\<open>LOG(level) << a << b\<close> makes a temporary logger, whose constructor
  writes the time, the level and the place into a string stream; every \<^verbatim>\<open><<\<close> appends to it; the
  destructor writes the line to the console. The clock and \<^verbatim>\<open>localtime\<close> are parameters (the latter can
  fail); of \<^verbatim>\<open>strftime\<close> the model has the conversions of the one format the code uses.
\<close>

section \<open>Levels\<close>

datatype LogLevel = LogLevel_Debug | LogLevel_Info | LogLevel_Warn | LogLevel_Error | LogLevel_Fatal

fun LogLevel_value :: "LogLevel \<Rightarrow> nat" where
  "LogLevel_value LogLevel_Debug = 0"
| "LogLevel_value LogLevel_Info = 1"
| "LogLevel_value LogLevel_Warn = 2"
| "LogLevel_value LogLevel_Error = 3"
| "LogLevel_value LogLevel_Fatal = 4"

definition LogLevelNames :: "string list" where
  "LogLevelNames = [''[DEBU] '', ''[INFO] '', ''[WARN] '', ''[ERRO] '', ''[FATA] '']"

section \<open>Decimal numbers and the time\<close>

definition digit :: "nat \<Rightarrow> char" where
  "digit n = char_of (48 + n)"

fun decimal :: "nat \<Rightarrow> string" where
  "decimal n = (if n < 10 then [digit n] else decimal (n div 10) @ [digit (n mod 10)])"

declare decimal.simps [simp del]

definition show_int :: "int \<Rightarrow> string" where
  "show_int i = (if i < 0 then ''-'' else '''') @ decimal (nat \<bar>i\<bar>)"

text \<open>The conversions with two digits (\<^verbatim>\<open>%m\<close>, \<^verbatim>\<open>%d\<close>, \<^verbatim>\<open>%H\<close>, \<^verbatim>\<open>%M\<close>, \<^verbatim>\<open>%S\<close>), for fields in their range.\<close>

definition two_digits :: "nat \<Rightarrow> string" where
  "two_digits n = [digit (n div 10), digit (n mod 10)]"

record tm =
  tm_year :: int
  tm_mon :: nat
  tm_mday :: nat
  tm_hour :: nat
  tm_min :: nat
  tm_sec :: nat

text \<open>What the C standard says of the fields: \<^verbatim>\<open>tm_year\<close> is an \<^verbatim>\<open>int\<close>, the others are in these ranges.\<close>

definition tm_ok :: "tm \<Rightarrow> bool" where
  "tm_ok t \<longleftrightarrow> - (2 ^ 31) \<le> tm_year t \<and> tm_year t < 2 ^ 31 \<and> tm_mon t \<le> 11 \<and> 1 \<le> tm_mday t \<and>
     tm_mday t \<le> 31 \<and> tm_hour t \<le> 23 \<and> tm_min t \<le> 59 \<and> tm_sec t \<le> 60"

definition log_time :: "tm \<Rightarrow> string" where
  "log_time t = ''['' @ show_int (tm_year t + 1900) @ ''-'' @ two_digits (tm_mon t + 1) @ ''-'' @
     two_digits (tm_mday t) @ '' '' @ two_digits (tm_hour t) @ '':'' @ two_digits (tm_min t) @ '':'' @
     two_digits (tm_sec t) @ ''] ''"

text \<open>
  \<^verbatim>\<open>strftime\<close> into a buffer of \<open>n\<close> characters: if the text and its final zero do not fit, it
  returns 0, which the code ignores, and the contents of the buffer are not determined (\<open>None\<close>).
\<close>

definition strftime_log :: "nat \<Rightarrow> tm \<Rightarrow> string option" where
  "strftime_log n t = (if length (log_time t) + 1 \<le> n then Some (log_time t) else None)"

section \<open>The logger\<close>

definition kMaxSizeForTime :: nat where
  "kMaxSizeForTime = 32"

record StreamLogger =
  oss :: string

definition new_StreamLogger :: "tm option \<Rightarrow> LogLevel \<Rightarrow> string \<Rightarrow> int \<Rightarrow> StreamLogger result" where
  "new_StreamLogger localtime level function line =
     (case localtime of
        None \<Rightarrow> Inl (UndefinedBehaviour ''strftime of a null pointer'')
      | Some t \<Rightarrow>
          (case strftime_log kMaxSizeForTime t of
             None \<Rightarrow> Inl (UndefinedBehaviour ''timeBuf is not initialised'')
           | Some timeBuf \<Rightarrow>
               Inr \<lparr>oss = timeBuf @ LogLevelNames ! LogLevel_value level @ function @ ''('' @ show_int line @ ''): ''\<rparr>))"

definition StreamLogger_append :: "string \<Rightarrow> StreamLogger \<Rightarrow> StreamLogger" where
  "StreamLogger_append t s = s\<lparr>oss := oss s @ t\<rparr>"

definition StreamLogger_destructor :: "StreamLogger \<Rightarrow> string \<Rightarrow> string" where
  "StreamLogger_destructor s console = console @ oss s @ [CHR 0x0A]"

text \<open>A whole statement \<^verbatim>\<open>LOG(level) << t1 << ... << tn\<close> in the given file and line.\<close>

definition LOG_line :: "tm option \<Rightarrow> LogLevel \<Rightarrow> string \<Rightarrow> int \<Rightarrow> string list \<Rightarrow> string \<Rightarrow> string result" where
  "LOG_line localtime level file line ts console =
     bindR (new_StreamLogger localtime level file line)
       (\<lambda>s. Inr (StreamLogger_destructor (fold StreamLogger_append ts s) console))"

section \<open>Properties\<close>

lemma length_decimal: "0 < k \<Longrightarrow> n < 10 ^ k \<Longrightarrow> length (decimal n) \<le> k"
proof (induction n arbitrary: k rule: decimal.induct)
  case (1 n)
  show ?case
  proof (cases "n < 10")
    case True
    with 1 show ?thesis by (subst decimal.simps) simp
  next
    case False
    with "1.prems" have "1 < k" by (cases "k = 1") auto
    then obtain k' where k: "k = Suc k'" "0 < k'" by (cases k) auto
    with "1.prems" have "n div 10 < 10 ^ k'" by (simp add: less_mult_imp_div_less mult.commute)
    with False k "1.IH" [of k'] show ?thesis by (subst decimal.simps) simp
  qed
qed

lemma length_show_int: "0 < k \<Longrightarrow> \<bar>i\<bar> < 10 ^ k \<Longrightarrow> length (show_int i) \<le> k + 1"
  using length_decimal [of k "nat \<bar>i\<bar>"] by (auto simp: show_int_def nat_less_iff)

lemma StreamLogger_appends: "oss (fold StreamLogger_append ts s) = oss s @ concat ts"
  by (induction ts arbitrary: s) (auto simp: StreamLogger_append_def)

text \<open>
  C33: logging is defined. The buffer of 32 characters is long enough for the time of every year an
  \<^verbatim>\<open>int\<close> can hold, so that ignoring the result of \<^verbatim>\<open>strftime\<close> is harmless; the statement writes one
  line with the time, the name of the level, the place and the values, in order, and keeps what was on the
  console. Only a time that \<^verbatim>\<open>localtime\<close> cannot convert makes it undefined.
\<close>

theorem log_line_written:
  assumes "tm_ok t"
  shows "length (log_time t) + 1 \<le> kMaxSizeForTime
    \<and> LOG_line (Some t) level file line ts console =
        Inr (console @ log_time t @ LogLevelNames ! LogLevel_value level @ file @ ''('' @ show_int line @ ''): ''
          @ concat ts @ [CHR 0x0A])
    \<and> LogLevel_value level < length LogLevelNames
    \<and> isl (LOG_line None level file line ts console)"
proof -
  have "\<bar>tm_year t + 1900\<bar> < 10 ^ 10" using assms by (auto simp: tm_ok_def)
  then have "length (show_int (tm_year t + 1900)) \<le> 11"
    using length_show_int [of 10 "tm_year t + 1900"] by simp
  then have fits: "length (log_time t) + 1 \<le> kMaxSizeForTime"
    by (simp add: log_time_def two_digits_def kMaxSizeForTime_def)
  then have "strftime_log kMaxSizeForTime t = Some (log_time t)" by (simp add: strftime_log_def)
  then have "LOG_line (Some t) level file line ts console =
        Inr (console @ log_time t @ LogLevelNames ! LogLevel_value level @ file @ ''('' @ show_int line @ ''): ''
          @ concat ts @ [CHR 0x0A])"
    by (simp add: LOG_line_def new_StreamLogger_def StreamLogger_destructor_def StreamLogger_appends)
  moreover have "LogLevel_value level < length LogLevelNames"
    by (cases level) (simp_all add: LogLevelNames_def)
  ultimately show ?thesis
    using fits by (simp add: LOG_line_def new_StreamLogger_def)
qed

definition sample_tm :: tm where
  "sample_tm = \<lparr>tm_year = 119, tm_mon = 3, tm_mday = 12, tm_hour = 9, tm_min = 30, tm_sec = 5\<rparr>"

theorem log_line_written_witness:
  "LOG_line (Some sample_tm) LogLevel_Warn ''a.cpp'' 42 [''x'', ''y''] '''' =
     Inr (''[2019-04-12 09:30:05] [WARN] a.cpp(42): xy'' @ [CHR 0x0A])"
proof -
  have ok: "tm_ok sample_tm" by (simp add: tm_ok_def sample_tm_def)
  have "log_time sample_tm = ''[2019-04-12 09:30:05] ''" by code_simp
  moreover have "LogLevelNames ! LogLevel_value LogLevel_Warn = ''[WARN] ''" by code_simp
  moreover have "show_int 42 = ''42''" by code_simp
  ultimately show ?thesis
    using log_line_written [OF ok, of LogLevel_Warn "''a.cpp''" 42 "[''x'', ''y'']" "''''"] by simp
qed

end
