(* ===== verification/Example_Semaphore.thy ===== *)
theory Example_Semaphore
  imports Prelude
begin

text \<open>
  The semaphore of \<^verbatim>\<open>src/example.cpp\<close>. First its two operations as functions; then the same operations
  as the threads run them, one access at a time: the mutex, the counter and the condition variable are
  shared, every thread has a program point, and the steps of the threads interleave in any order. A
  sleeping thread may also wake up for no reason.
\<close>

section \<open>The operations\<close>

record Semaphore =
  sem_count :: u64

definition Semaphore_Notify :: "Semaphore \<Rightarrow> Semaphore" where
  "Semaphore_Notify s = s\<lparr>sem_count := sem_count s + 1\<rparr>"

text \<open>\<open>None\<close>: the caller sleeps on the condition variable.\<close>

definition Semaphore_Wait :: "Semaphore \<Rightarrow> Semaphore option" where
  "Semaphore_Wait s = (if sem_count s = 0 then None else Some (s\<lparr>sem_count := sem_count s - 1\<rparr>))"

section \<open>The threads\<close>

text \<open>
  The points of a thread in \<^verbatim>\<open>Notify\<close>: before the lock, with the lock, after the increment, after
  \<^verbatim>\<open>notify_one\<close>, returned. In \<^verbatim>\<open>Wait\<close>: before the lock, at the test of the loop, about to call
  \<^verbatim>\<open>wait\<close>, asleep in it (it has released the mutex), woken and about to lock again, past the loop,
  after the decrement, returned.
\<close>

datatype sem_pc =
    NStart | NLocked | NCounted | NNotified | NDone
  | WStart | WTesting | WWaiting | WSleeping | WWoken | WLeaving | WTaken | WDone

record sem_system =
  sy_mutex :: "nat option"
  sy_sem :: Semaphore
  sy_threads :: "sem_pc list"

definition sem_start :: "sem_pc list \<Rightarrow> sem_system" where
  "sem_start ts = \<lparr>sy_mutex = None, sy_sem = \<lparr>sem_count = 0\<rparr>, sy_threads = ts\<rparr>"

definition goto :: "nat \<Rightarrow> sem_pc \<Rightarrow> sem_system \<Rightarrow> sem_system" where
  "goto i pc s = s\<lparr>sy_threads := (sy_threads s)[i := pc]\<rparr>"

definition at :: "sem_system \<Rightarrow> nat \<Rightarrow> sem_pc \<Rightarrow> bool" where
  "at s i pc \<longleftrightarrow> i < length (sy_threads s) \<and> sy_threads s ! i = pc"

text \<open>The flag says whether a thread may wake up without having been notified.\<close>

inductive sem_step :: "bool \<Rightarrow> sem_system \<Rightarrow> sem_system \<Rightarrow> bool" for spurious where
  n_lock: "at s i NStart \<Longrightarrow> sy_mutex s = None \<Longrightarrow> sem_step spurious s (goto i NLocked (s\<lparr>sy_mutex := Some i\<rparr>))"
| n_count: "at s i NLocked \<Longrightarrow>
    sem_step spurious s (goto i NCounted (s\<lparr>sy_sem := (sy_sem s)\<lparr>sem_count := sem_count (sy_sem s) + 1\<rparr>\<rparr>))"
| n_notify: "at s i NCounted \<Longrightarrow> at s j WSleeping \<Longrightarrow> sem_step spurious s (goto j WWoken (goto i NNotified s))"
| n_notify_none: "at s i NCounted \<Longrightarrow> \<forall>j. \<not> at s j WSleeping \<Longrightarrow> sem_step spurious s (goto i NNotified s)"
| n_unlock: "at s i NNotified \<Longrightarrow> sem_step spurious s (goto i NDone (s\<lparr>sy_mutex := None\<rparr>))"
| w_lock: "at s i pc \<Longrightarrow> pc \<in> {WStart, WWoken} \<Longrightarrow> sy_mutex s = None \<Longrightarrow>
    sem_step spurious s (goto i WTesting (s\<lparr>sy_mutex := Some i\<rparr>))"
| w_zero: "at s i WTesting \<Longrightarrow> sem_count (sy_sem s) = 0 \<Longrightarrow> sem_step spurious s (goto i WWaiting s)"
| w_nonzero: "at s i WTesting \<Longrightarrow> sem_count (sy_sem s) \<noteq> 0 \<Longrightarrow> sem_step spurious s (goto i WLeaving s)"
| w_sleep: "at s i WWaiting \<Longrightarrow> sem_step spurious s (goto i WSleeping (s\<lparr>sy_mutex := None\<rparr>))"
| w_take: "at s i WLeaving \<Longrightarrow>
    sem_step spurious s (goto i WTaken (s\<lparr>sy_sem := (sy_sem s)\<lparr>sem_count := sem_count (sy_sem s) - 1\<rparr>\<rparr>))"
| w_unlock: "at s i WTaken \<Longrightarrow> sem_step spurious s (goto i WDone (s\<lparr>sy_mutex := None\<rparr>))"
| w_spurious: "spurious \<Longrightarrow> at s i WSleeping \<Longrightarrow> sem_step spurious s (goto i WWoken s)"

inductive_cases sem_stepE: "sem_step spurious s s'"

text \<open>
  The scheduler that lets the threads with the given numbers take their next step, and \<^verbatim>\<open>notify_one\<close>
  wake the first sleeper. \<open>None\<close>: a thread whose turn it is cannot go on.
\<close>

definition advance :: "nat \<Rightarrow> sem_system \<Rightarrow> sem_system option" where
  "advance i s =
     (if i < length (sy_threads s) then
        (case sy_threads s ! i of
           NStart \<Rightarrow> if sy_mutex s = None then Some (goto i NLocked (s\<lparr>sy_mutex := Some i\<rparr>)) else None
         | NLocked \<Rightarrow> Some (goto i NCounted (s\<lparr>sy_sem := Semaphore_Notify (sy_sem s)\<rparr>))
         | NCounted \<Rightarrow>
             (case filter (\<lambda>j. sy_threads s ! j = WSleeping) [0..<length (sy_threads s)] of
                [] \<Rightarrow> Some (goto i NNotified s)
              | j # _ \<Rightarrow> Some (goto j WWoken (goto i NNotified s)))
         | NNotified \<Rightarrow> Some (goto i NDone (s\<lparr>sy_mutex := None\<rparr>))
         | WTesting \<Rightarrow> Some (goto i (if Semaphore_Wait (sy_sem s) = None then WWaiting else WLeaving) s)
         | WWaiting \<Rightarrow> Some (goto i WSleeping (s\<lparr>sy_mutex := None\<rparr>))
         | WLeaving \<Rightarrow> map_option (\<lambda>sem. goto i WTaken (s\<lparr>sy_sem := sem\<rparr>)) (Semaphore_Wait (sy_sem s))
         | WTaken \<Rightarrow> Some (goto i WDone (s\<lparr>sy_mutex := None\<rparr>))
         | pc \<Rightarrow> if pc \<in> {WStart, WWoken} \<and> sy_mutex s = None
             then Some (goto i WTesting (s\<lparr>sy_mutex := Some i\<rparr>)) else None)
      else None)"

fun schedule :: "nat list \<Rightarrow> sem_system \<Rightarrow> sem_system option" where
  "schedule [] s = Some s"
| "schedule (i # is) s = Option.bind (advance i s) (schedule is)"

lemma advance_step:
  assumes "advance i s = Some s'"
  shows "sem_step sp s s'"
proof -
  have i: "at s i (sy_threads s ! i)"
    using assms by (auto simp: advance_def at_def split: if_splits)
  have notify: "sem_step sp s s'" if n: "sy_threads s ! i = NCounted"
  proof (cases "filter (\<lambda>j. sy_threads s ! j = WSleeping) [0..<length (sy_threads s)]")
    case Nil
    with i n assms show ?thesis
      by (auto simp: advance_def at_def filter_empty_conv intro!: n_notify_none)
  next
    case (Cons j js)
    then have "j \<in> set (filter (\<lambda>j. sy_threads s ! j = WSleeping) [0..<length (sy_threads s)])" by simp
    then have "at s j WSleeping" by (simp add: at_def)
    with i n assms Cons show ?thesis by (auto simp: advance_def at_def intro!: n_notify)
  qed
  show ?thesis
  proof (cases "sy_threads s ! i = NCounted")
    case False
    then show ?thesis
      using i assms n_lock [of s i sp] n_count [of s i sp] n_unlock [of s i sp] w_lock [of s i _ sp]
        w_zero [of s i sp] w_nonzero [of s i sp] w_sleep [of s i sp] w_take [of s i sp] w_unlock [of s i sp]
      by (auto simp: advance_def Semaphore_Notify_def Semaphore_Wait_def split: sem_pc.splits if_splits)
  qed (rule notify)
qed

lemma schedule_run: "schedule is s = Some s' \<Longrightarrow> (sem_step sp ^^ length is) s s'"
proof (induction "is" arbitrary: s)
  case (Cons i "is")
  then obtain t where "advance i s = Some t" and "schedule is t = Some s'"
    by (auto simp: bind_eq_Some_conv)
  with Cons.IH advance_step [of i s t sp] show ?case
    by (auto simp only: list.size add_0_right One_nat_def add_Suc_right intro: relpowp_Suc_I2)
qed simp

section \<open>Sums over the threads\<close>

definition census :: "(sem_pc \<Rightarrow> nat) \<Rightarrow> sem_system \<Rightarrow> nat" where
  "census f s = sum_list (map f (sy_threads s))"

lemma sum_list_update_add:
  fixes f :: "'a \<Rightarrow> nat"
  shows "i < length xs \<Longrightarrow> sum_list (map f (xs[i := y])) + f (xs ! i) = sum_list (map f xs) + f y"
proof (induction xs arbitrary: i)
  case (Cons x xs)
  then show ?case by (cases i) auto
qed simp

lemma census_goto: "at s i pc \<Longrightarrow> census f (goto i pc' s) + f pc = census f s + f pc'"
  using sum_list_update_add [of i "sy_threads s" f pc'] by (auto simp: census_def goto_def at_def)

lemma census_fields [simp]:
  "census f (s\<lparr>sy_mutex := m\<rparr>) = census f s" "census f (s\<lparr>sy_sem := c\<rparr>) = census f s"
  "census f (goto i pc (s\<lparr>sy_mutex := m\<rparr>)) = census f (goto i pc s)"
  "census f (goto i pc (s\<lparr>sy_sem := c\<rparr>)) = census f (goto i pc s)"
  by (simp_all add: census_def goto_def)

lemma goto_fields [simp]:
  "sy_mutex (goto i pc s) = sy_mutex s" "sy_sem (goto i pc s) = sy_sem s"
  "length (sy_threads (goto i pc s)) = length (sy_threads s)"
  by (simp_all add: goto_def)

lemma at_fields [simp]:
  "at (s\<lparr>sy_mutex := m\<rparr>) i pc = at s i pc" "at (s\<lparr>sy_sem := c\<rparr>) i pc = at s i pc"
  by (simp_all add: at_def)

lemma at_goto: "at s i pc \<Longrightarrow> at (goto i pc' s) j pc'' = (if j = i then pc'' = pc' else at s j pc'')"
  by (auto simp: at_def goto_def nth_list_update)

lemma at_other: "at s i pc \<Longrightarrow> at s j pc' \<Longrightarrow> pc \<noteq> pc' \<Longrightarrow> at (goto i q s) j pc'"
  by (auto simp: at_def goto_def nth_list_update)

lemma at_woken:
  "at s i NCounted \<Longrightarrow> at s j WSleeping \<Longrightarrow> at (goto j WWoken (goto i NNotified s)) k pc =
   (if k = j then pc = WWoken else if k = i then pc = NNotified else at s k pc)"
  by (auto simp: at_def goto_def nth_list_update)

lemma census_pos: "at s i pc \<Longrightarrow> f pc \<le> census f s"
  by (auto simp: at_def census_def intro!: elem_le_sum_list [of i "map f (sy_threads s)", simplified])

lemma census_zero: "census f s = 0 \<longleftrightarrow> (\<forall>i pc. at s i pc \<longrightarrow> f pc = 0)"
  by (force simp: census_def at_def in_set_conv_nth)

lemma census_cong: "(\<And>i pc. at s i pc \<Longrightarrow> f pc = g pc) \<Longrightarrow> census f s = census g s"
  unfolding census_def by (rule arg_cong [of _ _ sum_list]) (auto simp: at_def in_set_conv_nth)

lemma census_add: "census (\<lambda>pc. f pc + g pc) s = census f s + census g s"
  by (simp add: census_def sum_list_addf)

lemma census_le: "(\<And>pc. f pc \<le> k) \<Longrightarrow> census f s \<le> k * length (sy_threads s)"
  using sum_list_mono [of "sy_threads s" f "\<lambda>_. k"]
  by (simp add: census_def sum_list_triv mult.commute)

section \<open>The invariant\<close>

text \<open>The points at which a thread owns the mutex, and the classes of threads the invariant counts.\<close>

definition among :: "sem_pc set \<Rightarrow> sem_pc \<Rightarrow> nat" where
  "among A pc = (if pc \<in> A then 1 else 0)"

definition owning :: "sem_pc set" where
  "owning = {NLocked, NCounted, NNotified, WTesting, WWaiting, WLeaving, WTaken}"

definition counted :: "sem_pc set" where
  "counted = {NCounted, NNotified, NDone}"

definition taken :: "sem_pc set" where
  "taken = {WTaken, WDone}"

definition awake :: "sem_pc set" where
  "awake = {NCounted, WStart, WTesting, WWoken, WLeaving}"

definition notifiers :: "sem_pc set" where
  "notifiers = {NStart, NLocked, NCounted, NNotified, NDone}"

lemma among_simps [simp]: "pc \<in> A \<Longrightarrow> among A pc = 1" "pc \<notin> A \<Longrightarrow> among A pc = 0"
  by (simp_all add: among_def)

lemmas pc_classes = owning_def counted_def taken_def awake_def notifiers_def

definition exclusive :: "sem_system \<Rightarrow> bool" where
  "exclusive s \<longleftrightarrow> (\<forall>i pc. at s i pc \<longrightarrow> (pc \<in> owning \<longleftrightarrow> sy_mutex s = Some i)) \<and>
     (\<forall>i. sy_mutex s = Some i \<longrightarrow> i < length (sy_threads s))"

definition tested :: "sem_system \<Rightarrow> bool" where
  "tested s \<longleftrightarrow> (\<forall>i. (at s i WWaiting \<longrightarrow> sem_count (sy_sem s) = 0) \<and> (at s i WLeaving \<longrightarrow> sem_count (sy_sem s) \<noteq> 0))"

definition balanced :: "sem_system \<Rightarrow> bool" where
  "balanced s \<longleftrightarrow> unat (sem_count (sy_sem s)) + census (among taken) s = census (among counted) s"

definition attended :: "sem_system \<Rightarrow> bool" where
  "attended s \<longleftrightarrow> (census (among {WSleeping}) s > 0 \<longrightarrow> unat (sem_count (sy_sem s)) \<le> census (among awake) s)"

lemma exclusive_at: "exclusive s \<Longrightarrow> at s i pc \<Longrightarrow> pc \<in> owning \<longleftrightarrow> sy_mutex s = Some i"
  by (auto simp: exclusive_def)

lemma exclusive_unique:
  assumes "exclusive s" and "at s i pc" and "pc \<in> owning" and "at s j pc'" and "pc' \<in> owning"
  shows "j = i"
  using assms by (auto simp: exclusive_at)

lemma exclusive_sem [simp]: "exclusive (s\<lparr>sy_sem := c\<rparr>) = exclusive s"
  by (simp add: exclusive_def)

lemma exclusive_acquire:
  "exclusive s \<Longrightarrow> at s i pc \<Longrightarrow> sy_mutex s = None \<Longrightarrow> pc' \<in> owning \<Longrightarrow>
   exclusive (goto i pc' (s\<lparr>sy_mutex := Some i\<rparr>))"
  by (auto simp: exclusive_def at_goto) (simp add: at_def)

lemma exclusive_release:
  assumes "exclusive s" and "at s i pc" and "pc \<in> owning" and "pc' \<notin> owning"
  shows "exclusive (goto i pc' (s\<lparr>sy_mutex := None\<rparr>))"
  using assms exclusive_unique [OF assms(1-3)] by (auto simp: exclusive_def at_goto)

lemma exclusive_stay:
  "exclusive s \<Longrightarrow> at s i pc \<Longrightarrow> pc \<in> owning \<longleftrightarrow> pc' \<in> owning \<Longrightarrow> exclusive (goto i pc' s)"
  by (auto simp: exclusive_def at_goto)

lemma exclusive_woken:
  "exclusive s \<Longrightarrow> at s i NCounted \<Longrightarrow> at s j WSleeping \<Longrightarrow> exclusive (goto j WWoken (goto i NNotified s))"
  by (rule exclusive_stay [of _ j WSleeping])
    (auto intro: exclusive_stay [of s i NCounted] at_other [of s i NCounted] simp: owning_def)

lemma exclusive_step:
  assumes "exclusive s"
  shows "sem_step sp s s' \<Longrightarrow> exclusive s'"
  by (erule sem_stepE)
    (use assms in \<open>auto simp: owning_def exclusive_woken
       intro: exclusive_acquire exclusive_release exclusive_stay\<close>)

lemma tested_set:
  assumes "exclusive s" and "at s i pc" and "pc \<in> owning" and "pc' \<notin> {WWaiting, WLeaving}"
  shows "tested (goto i pc' (s\<lparr>sy_sem := c\<rparr>))"
proof -
  have "\<not> at s j WWaiting \<and> \<not> at s j WLeaving" if "j \<noteq> i" for j
    using that exclusive_unique [OF assms(1-3), of j WWaiting] exclusive_unique [OF assms(1-3), of j WLeaving]
    by (auto simp: owning_def)
  with assms(2,4) show ?thesis by (auto simp: tested_def at_goto)
qed

lemma tested_goto:
  assumes "tested s" and "at s i pc"
    and "pc' = WWaiting \<Longrightarrow> sem_count (sy_sem s) = 0" and "pc' = WLeaving \<Longrightarrow> sem_count (sy_sem s) \<noteq> 0"
  shows "tested (goto i pc' (s\<lparr>sy_mutex := m\<rparr>))" "tested (goto i pc' s)"
  using assms by (auto simp: tested_def at_goto)

lemma tested_woken:
  "tested s \<Longrightarrow> at s i NCounted \<Longrightarrow> at s j WSleeping \<Longrightarrow> tested (goto j WWoken (goto i NNotified s))"
  by (simp add: tested_def at_woken)

lemma tested_step:
  assumes "exclusive s" "tested s"
  shows "sem_step sp s s' \<Longrightarrow> tested s'"
  by (erule sem_stepE) (use assms in \<open>auto intro: tested_set tested_goto tested_woken simp: owning_def\<close>)

text \<open>How a step changes the number of threads in a class.\<close>

lemma census_same: "at s i pc \<Longrightarrow> f pc = f pc' \<Longrightarrow> census f (goto i pc' s) = census f s"
  using census_goto [of s i pc f pc'] by simp

lemma census_enter: "at s i pc \<Longrightarrow> f pc = 0 \<Longrightarrow> f pc' = 1 \<Longrightarrow> census f (goto i pc' s) = Suc (census f s)"
  using census_goto [of s i pc f pc'] by simp

lemma census_leave: "at s i pc \<Longrightarrow> f pc = 1 \<Longrightarrow> f pc' = 0 \<Longrightarrow> Suc (census f (goto i pc' s)) = census f s"
  using census_goto [of s i pc f pc'] by simp

lemma census_woken:
  "at s i NCounted \<Longrightarrow> at s j WSleeping \<Longrightarrow>
   census f (goto j WWoken (goto i NNotified s)) + f NCounted + f WSleeping = census f s + f WWoken + f NNotified"
  using census_goto [of s i NCounted f NNotified] census_goto [of "goto i NNotified s" j WSleeping f WWoken]
    at_other [of s i NCounted j WSleeping NNotified] by simp

lemma census_room:
  assumes "at s i pc" and "pc \<notin> A"
  shows "census (among A) s < length (sy_threads s)"
proof -
  have "census (\<lambda>p. among A p + among {pc} p) s \<le> 1 * length (sy_threads s)"
    using assms(2) by (intro census_le) (simp add: among_def)
  moreover have "1 \<le> census (among {pc}) s"
    using census_pos [OF assms(1), of "among {pc}"] by simp
  ultimately show ?thesis by (simp add: census_add)
qed

lemma unat_count_up: "unat (c :: u64) + 1 < 2 ^ 64 \<Longrightarrow> unat (c + 1) = unat c + 1"
  by (simp add: unat_word_ariths)

lemma unat_count_down: "(c :: u64) \<noteq> 0 \<Longrightarrow> Suc (unat (c - 1)) = unat c"
  by (metis Suc_eq_plus1 Suc_pred' measure_unat unat_gt_0 unat_minus_one)

lemma balanced_step:
  assumes "tested s" and "balanced s" and "length (sy_threads s) < 2 ^ 64"
  shows "sem_step sp s s' \<Longrightarrow> balanced s'"
proof (erule sem_stepE)
  fix i assume s': "s' = goto i NCounted (s\<lparr>sy_sem := (sy_sem s)\<lparr>sem_count := sem_count (sy_sem s) + 1\<rparr>\<rparr>)" and i: "at s i NLocked"
  show "balanced s'"
    using s' i assms(2,3) census_room [OF i, of counted] 
    by (simp add: balanced_def pc_classes unat_count_up census_same census_enter)
next
  fix i assume s': "s' = goto i WTaken (s\<lparr>sy_sem := (sy_sem s)\<lparr>sem_count := sem_count (sy_sem s) - 1\<rparr>\<rparr>)" and i: "at s i WLeaving"
  moreover have "sem_count (sy_sem s) \<noteq> 0" using assms(1) i by (auto simp: tested_def)
  note unat_count_down [OF this]
  ultimately show "balanced s'"
    using assms(2) 
    by (simp add: balanced_def pc_classes census_same census_enter)
qed (use assms(2) census_woken [where f = "among taken"] census_woken [where f = "among counted"] in \<open>auto simp: balanced_def pc_classes census_same\<close>)

lemma attended_step:
  assumes "tested s" and "balanced s" and "attended s" and "length (sy_threads s) < 2 ^ 64"
  shows "sem_step sp s s' \<Longrightarrow> attended s'"
proof (erule sem_stepE)
  fix i assume s': "s' = goto i NCounted (s\<lparr>sy_sem := (sy_sem s)\<lparr>sem_count := sem_count (sy_sem s) + 1\<rparr>\<rparr>)"
    and i: "at s i NLocked"
  show "attended s'"
    using s' i assms(2-4) census_room [OF i, of counted]
    by (simp add: attended_def balanced_def pc_classes unat_count_up census_same census_enter)
next
  fix i j assume "s' = goto j WWoken (goto i NNotified s)" and i: "at s i NCounted" and j: "at s j WSleeping"
  moreover have "0 < census (among {WSleeping}) s"
    using census_pos [OF j, of "among {WSleeping}"] by simp
  ultimately show "attended s'"
    using assms(3) census_woken [OF i j, of "among awake"] by (simp add: attended_def pc_classes)
next
  fix i assume "s' = goto i NNotified s" and i: "at s i NCounted" and none: "\<forall>j. \<not> at s j WSleeping"
  then have "s' = goto i NNotified s" and "census (among {WSleeping}) s = 0"
    by (auto simp: census_zero among_def)
  with i show "attended s'" by (simp add: attended_def census_same)
next
  fix i assume "s' = goto i WSleeping (s\<lparr>sy_mutex := None\<rparr>)" and "at s i WWaiting"
  with assms(1) show "attended s'" by (auto simp: attended_def tested_def)
next
  fix i assume "s' = goto i WTaken (s\<lparr>sy_sem := (sy_sem s)\<lparr>sem_count := sem_count (sy_sem s) - 1\<rparr>\<rparr>)"
    and i: "at s i WLeaving"
  moreover have "Suc (unat (sem_count (sy_sem s) - 1)) = unat (sem_count (sy_sem s))"
    using assms(1) i by (intro unat_count_down) (auto simp: tested_def)
  ultimately show "attended s'"
    using assms(3) census_leave [OF i, of "among awake" WTaken]
    by (auto simp: attended_def pc_classes census_same)
next
  fix i assume "s' = goto i WWoken s" and i: "at s i WSleeping"
  moreover have "0 < census (among {WSleeping}) s"
    using census_pos [OF i, of "among {WSleeping}"] by simp
  ultimately show "attended s'"
    using assms(3) by (simp add: attended_def pc_classes census_enter)
qed (use assms(3) in \<open>auto simp: attended_def pc_classes census_same census_enter\<close>)

lemma census_step:
  assumes "f NStart = f NLocked" "f NStart = f NCounted" "f NStart = f NNotified" "f NStart = f NDone"
    "f WStart = f WTesting" "f WStart = f WWaiting" "f WStart = f WSleeping" "f WStart = f WWoken"
    "f WStart = f WLeaving" "f WStart = f WTaken" "f WStart = f WDone"
  shows "sem_step sp s s' \<Longrightarrow> census f s' = census f s"
  by (erule sem_stepE) (use assms census_woken [where f = f] in \<open>auto simp: census_same\<close>)

definition sem_ok :: "sem_pc list \<Rightarrow> sem_system \<Rightarrow> bool" where
  "sem_ok ts s \<longleftrightarrow> exclusive s \<and> tested s \<and> balanced s \<and> attended s \<and> length (sy_threads s) = length ts \<and>
     census (among notifiers) s = count_list ts NStart \<and> census (among (- notifiers)) s = count_list ts WStart"

lemma census_count:
  "set ts \<subseteq> {NStart, WStart} \<Longrightarrow> sum_list (map f ts) = f NStart * count_list ts NStart + f WStart * count_list ts WStart"
  by (induction ts) auto

lemma census_start:
  "set ts \<subseteq> {NStart, WStart} \<Longrightarrow> census f (sem_start ts) = f NStart * count_list ts NStart + f WStart * count_list ts WStart"
  by (simp add: census_def sem_start_def census_count)

lemma sem_start_simps [simp]:
  "sy_mutex (sem_start ts) = None" "sem_count (sy_sem (sem_start ts)) = 0" "sy_threads (sem_start ts) = ts"
  by (simp_all add: sem_start_def)

lemma sem_ok_start:
  assumes "set ts \<subseteq> {NStart, WStart}"
  shows "sem_ok ts (sem_start ts)"
proof -
  have at: "pc \<in> {NStart, WStart}" if "at (sem_start ts) i pc" for i pc
    using assms that nth_mem by (fastforce simp: at_def)
  then have "exclusive (sem_start ts)" "tested (sem_start ts)"
    by (fastforce simp: exclusive_def tested_def owning_def)+
  then show ?thesis
    using assms by (simp add: sem_ok_def balanced_def attended_def census_start pc_classes)
qed

lemma length_step: "sem_step sp s s' \<Longrightarrow> length (sy_threads s') = length (sy_threads s)"
  by (erule sem_stepE) auto

lemma sem_ok_step:
  assumes "sem_ok ts s" and "length ts < 2 ^ 64" and "sem_step sp s s'"
  shows "sem_ok ts s'"
proof -
  have "census (among notifiers) s' = census (among notifiers) s"
    and "census (among (- notifiers)) s' = census (among (- notifiers)) s"
    using assms(3) by (auto intro!: census_step simp: notifiers_def)
  with assms exclusive_step tested_step balanced_step attended_step length_step show ?thesis
    unfolding sem_ok_def by metis
qed

lemma sem_ok_run:
  assumes "set ts \<subseteq> {NStart, WStart}" and "length ts < 2 ^ 64" and "(sem_step sp)\<^sup>*\<^sup>* (sem_start ts) s"
  shows "sem_ok ts s"
  using assms(3)
proof (induction rule: rtranclp_induct)
  case base
  show ?case using assms(1) by (rule sem_ok_start)
next
  case (step s s')
  show ?case using step.IH assms(2) step.hyps(2) by (rule sem_ok_step)
qed

section \<open>Progress\<close>

fun weight :: "sem_pc \<Rightarrow> nat" where
  "weight NStart = 8" | "weight NLocked = 7" | "weight NCounted = 6" | "weight NNotified = 1" | "weight NDone = 0"
| "weight WStart = 4" | "weight WWoken = 4" | "weight WTesting = 3" | "weight WWaiting = 1" | "weight WSleeping = 0"
| "weight WLeaving = 2" | "weight WTaken = 1" | "weight WDone = 0"

lemma weight_goto: "at s i pc \<Longrightarrow> weight pc' < weight pc \<Longrightarrow> census weight (goto i pc' s) < census weight s"
  using census_goto [of s i pc weight pc'] by simp

lemma weight_woken:
  "at s i NCounted \<Longrightarrow> at s j WSleeping \<Longrightarrow> census weight (goto j WWoken (goto i NNotified s)) < census weight s"
  using census_woken [of s i j weight] by simp

lemma weight_step: "sem_step False s s' \<Longrightarrow> census weight s' < census weight s"
  by (erule sem_stepE) (auto intro: weight_goto weight_woken)

lemma weight_run: "(sem_step False ^^ n) s s' \<Longrightarrow> n + census weight s' \<le> census weight s"
proof (induction n arbitrary: s')
  case (Suc n)
  then obtain t where "(sem_step False ^^ n) s t" and "sem_step False t s'" by auto
  with Suc.IH weight_step [of t s'] show ?case by fastforce
qed simp

text \<open>A thread that owns the mutex can always go on, and so can one that wants it while it is free.\<close>

lemma owner_steps: "at s i pc \<Longrightarrow> pc \<in> owning \<Longrightarrow> \<exists>s'. sem_step sp s s'"
  unfolding owning_def
  by (cases pc) (auto intro: sem_step.intros, (metis n_notify n_notify_none w_zero w_nonzero)+)

lemma stuck_points:
  assumes "exclusive s" and "\<nexists>s'. sem_step sp s s'" and "at s i pc"
  shows "pc \<in> {NDone, WSleeping, WDone}"
proof -
  have no_owner: "\<not> (at s j pc \<and> pc \<in> owning)" for j pc
    using owner_steps assms(2) by blast
  then have free: "sy_mutex s = None"
    using assms(1) by (metis at_def exclusive_def not_None_eq)
  have "pc \<notin> {NStart, WStart, WWoken}"
    using assms(2,3) free n_lock w_lock by blast
  then show ?thesis
    using no_owner assms(3) by (cases pc) (auto simp: owning_def)
qed

lemma stuck_served:
  assumes ok: "sem_ok ts s" and "\<nexists>s'. sem_step sp s s'"
  shows "census (among {WDone}) s = min (count_list ts NStart) (count_list ts WStart)"
proof -
  have "exclusive s" using ok by (simp add: sem_ok_def)
  have "census (among (- notifiers)) s = census (\<lambda>pc. among {WDone} pc + among {WSleeping} pc) s"
    and "census (among taken) s = census (among {WDone}) s"
    and "census (among counted) s = census (among notifiers) s"
    and "census (among awake) s = census (\<lambda>_. 0) s"
    by (rule census_cong, drule stuck_points [OF \<open>exclusive s\<close> assms(2)], auto simp: pc_classes)+
  then have w: "census (among {WDone}) s + census (among {WSleeping}) s = count_list ts WStart"
    and n: "unat (sem_count (sy_sem s)) + census (among {WDone}) s = count_list ts NStart"
    and z: "census (among awake) s = 0"
    using ok by (auto simp: sem_ok_def balanced_def census_add census_zero)
  have "attended s" using ok by (simp add: sem_ok_def)
  with w n z show ?thesis by (cases "census (among {WSleeping}) s = 0") (auto simp: attended_def)
qed

section \<open>Properties\<close>

lemma census_single: "census (among {pc}) s = count_list (sy_threads s) pc"
proof -
  have "sum_list (map (among {pc}) xs) = count_list xs pc" for xs by (induction xs) auto
  then show ?thesis by (simp add: census_def)
qed

text \<open>
  C18: The semaphore loses no wake-up. Let any number of threads call \<^verbatim>\<open>Notify\<close> and \<^verbatim>\<open>Wait\<close>, fewer
  than 2 to the 64, interleaved in any way and with wake-ups for no reason. At every moment no two threads
  are between a lock and its unlock; the counter plus the number of \<^verbatim>\<open>Wait\<close> calls that have decremented
  it is the number of \<^verbatim>\<open>Notify\<close> calls that have incremented it, so that it never wraps round; and while
  some thread sleeps on the condition variable, every unit of the counter has a thread that is on its
  way to the test or is about to call \<^verbatim>\<open>notify_one\<close>.
\<close>

theorem semaphore_no_lost_wakeup:
  assumes "set ts \<subseteq> {NStart, WStart}" and "length ts < 2 ^ 64" and "(sem_step True)\<^sup>*\<^sup>* (sem_start ts) s"
  shows "(\<forall>i j pc pc'. at s i pc \<and> at s j pc' \<and> pc \<in> owning \<and> pc' \<in> owning \<longrightarrow> i = j) \<and>
    unat (sem_count (sy_sem s)) + census (among {WTaken, WDone}) s =
      census (among {NCounted, NNotified, NDone}) s \<and>
    (count_list (sy_threads s) WSleeping > 0 \<longrightarrow>
      unat (sem_count (sy_sem s)) \<le> census (among {NCounted, WStart, WTesting, WWoken, WLeaving}) s)"
proof -
  have ok: "exclusive s" "balanced s" "attended s"
    using sem_ok_run [OF assms] by (simp_all add: sem_ok_def)
  have "i = j" if "at s i pc" "at s j pc'" "pc \<in> owning" "pc' \<in> owning" for i j pc pc'
    using exclusive_unique [OF ok(1) that(2,4) that(1,3)] .
  with ok(2,3) show ?thesis
    by (auto simp: balanced_def attended_def census_single counted_def taken_def awake_def)
qed

text \<open>A waiter that goes to sleep, and the notifier that comes after it.\<close>

definition sleeping_state :: sem_system where
  "sleeping_state = \<lparr>sy_mutex = Some 1, sy_sem = \<lparr>sem_count = 1\<rparr>, sy_threads = [WSleeping, NCounted]\<rparr>"

definition served_state :: sem_system where
  "served_state = \<lparr>sy_mutex = None, sy_sem = \<lparr>sem_count = 0\<rparr>, sy_threads = [WDone, NDone]\<rparr>"

lemma sleeping_run: "schedule [0, 0, 0, 1, 1] (sem_start [WStart, NStart]) = Some sleeping_state"
  by code_simp

lemma served_run: "schedule [0, 0, 0, 1, 1, 1, 1, 0, 0, 0, 0] (sem_start [WStart, NStart]) = Some served_state"
  by code_simp

lemma served_stuck: "\<nexists>s'. sem_step sp served_state s'"
  by (auto elim!: sem_stepE simp: served_state_def at_def less_Suc_eq)

theorem semaphore_no_lost_wakeup_witness:
  "(sem_step True)\<^sup>*\<^sup>* (sem_start [WStart, NStart]) sleeping_state \<and>
   count_list (sy_threads sleeping_state) WSleeping > 0 \<and>
   unat (sem_count (sy_sem sleeping_state)) \<le> census (among {NCounted, WStart, WTesting, WWoken, WLeaving}) sleeping_state"
proof -
  have run: "(sem_step True)\<^sup>*\<^sup>* (sem_start [WStart, NStart]) sleeping_state"
    using schedule_run [OF sleeping_run] by (rule relpowp_imp_rtranclp)
  with semaphore_no_lost_wakeup [of "[WStart, NStart]" sleeping_state] show ?thesis
    by (simp add: sleeping_state_def)
qed



end
