(* ===== verification/Example_Main.thy ===== *)
theory Example_Main
  imports Client Example_Semaphore Logger
begin

text \<open>
  \<^verbatim>\<open>src/example.cpp\<close>: a program that uses the library. It adds a listener, connects, waits on a
  semaphore that the listener raises, and then makes one request. The program has one listener and one
  request handler, both written \<open>()\<close>. What it logs is a level and the values of the statement.
\<close>

section \<open>The program\<close>

definition example_address :: string where
  "example_address = ''a1d127034f31611e8858512b1bea90da-838011280.us-east-1.elb.amazonaws.com:3251''"

definition example_listener :: "Event \<Rightarrow> Semaphore \<Rightarrow> Semaphore" where
  "example_listener ev s = (if ev = EvConnected then Semaphore_Notify s else s)"

definition example_listener_log :: "Event \<Rightarrow> string \<Rightarrow> LogLevel \<times> string list" where
  "example_listener_log ev msg = (LogLevel_Info, [''===> Got event: ('', Event_print ev, '') => '', msg])"

definition example_handler_log :: "RequestStatus \<Rightarrow> bytes \<Rightarrow> LogLevel \<times> string list" where
  "example_handler_log status data =
     (if status \<noteq> Ok then (LogLevel_Error, [''Request failed: status = '', RequestStatus_print status])
      else (LogLevel_Info, [''Received data from server: '', string_of_bytes data]))"

text \<open>The semaphore after the calls of the listener so far.\<close>

definition example_semaphore :: "(unit \<times> Event \<times> string) list \<Rightarrow> Semaphore" where
  "example_semaphore calls = fold (\<lambda>(_, ev, _). example_listener ev) calls \<lparr>sem_count = 0\<rparr>"

text \<open>
  \<^verbatim>\<open>main\<close> up to the semaphore, and from there on. An exception of the library is logged and ends
  it with -1 (\<open>Inl\<close>). \<open>main_continue\<close> is \<open>None\<close> while the main thread sleeps.
\<close>

definition main_catch :: "fault \<Rightarrow> (int \<times> LogLevel \<times> string list) result" where
  "main_catch e =
     (case Exception_what e of
        Some what \<Rightarrow> Inr (-1, LogLevel_Error, [''Failed: '', what])
      | None \<Rightarrow> Inl e)"

definition main_start ::
  "('z, 'v) env \<Rightarrow> nat \<Rightarrow> ((int \<times> LogLevel \<times> string list) + (unit, unit) Client) result"
where
  "main_start E tid =
     (case bindR (Client_AddEventListener () (new_Client E)) (Client_Connect E tid example_address) of
        Inl e \<Rightarrow> bindR (main_catch e) (\<lambda>r. Inr (Inl r))
      | Inr cl \<Rightarrow> Inr (Inr cl))"

definition main_continue :: "(unit, unit) Client \<Rightarrow> (unit, unit) Client option" where
  "main_continue cl =
     (case Semaphore_Wait (example_semaphore (listenerCalls (c_connection cl))) of
        None \<Rightarrow> None
      | Some _ \<Rightarrow> Some (Client_Request_empty ''connector.getsessiondata'' 5 () cl))"

section \<open>When the program goes on\<close>

lemma example_semaphore_count:
  "sem_count (example_semaphore calls) = of_nat (length (filter (\<lambda>(_, ev, _). ev = EvConnected) calls))"
proof -
  have "sem_count (fold (\<lambda>(_, ev, _). example_listener ev) calls s) =
      sem_count s + of_nat (length (filter (\<lambda>(_, ev, _). ev = EvConnected) calls))" for s
    by (induction calls arbitrary: s) (auto simp: example_listener_def Semaphore_Notify_def)
  then show ?thesis by (simp add: example_semaphore_def)
qed

text \<open>The main thread goes on exactly if the listener was told of a connection (and not so often that the count wraps round).\<close>

lemma main_continue_iff:
  assumes "length (listenerCalls (c_connection cl)) < 2 ^ 64"
  shows "main_continue cl = None \<longleftrightarrow> (\<forall>(_, ev, _) \<in> set (listenerCalls (c_connection cl)). ev \<noteq> EvConnected)"
proof -
  let ?n = "length (filter (\<lambda>(_, ev, _). ev = EvConnected) (listenerCalls (c_connection cl)))"
  have "?n < 2 ^ 64"
    using length_filter_le assms by (rule le_less_trans)
  then have "(of_nat ?n :: u64) = 0 \<longleftrightarrow> ?n = 0"
    using unat_of_nat_less [of ?n, where 'a = 64] by (auto simp flip: unat_eq_zero)
  moreover have "?n = 0 \<longleftrightarrow> (\<forall>(_, ev, _) \<in> set (listenerCalls (c_connection cl)). ev \<noteq> EvConnected)"
    by (auto simp: filter_empty_conv)
  ultimately show ?thesis
    by (simp add: main_continue_def Semaphore_Wait_def example_semaphore_count)
qed

lemma example_split: "\<exists>host. SplitHostAndPort example_address = Some (host, ''3251'')"
  by (rule exI [of _ "''a1d127034f31611e8858512b1bea90da-838011280.us-east-1.elb.amazonaws.com''"]) code_simp

lemma main_start_connects:
  assumes "\<And>host port. e_resolve E host port = Inr ()" and "tid \<noteq> e_worker E"
  shows "\<exists>host. main_start E tid = Inr (Inr \<lparr>c_connection = (new_Connection E)
     \<lparr>eventListeners := \<lparr>el_mutex = False, el_listeners = [()]\<rparr>, ioContext := [PendingConnect host ''3251'']\<rparr>\<rparr>)"
proof -
  from example_split obtain host where "SplitHostAndPort example_address = Some (host, ''3251'')" by blast
  with assms show ?thesis
    by (simp add: main_start_def Client_AddEventListener_def Client_Connect_def new_Client_def AddEventListener_def
        new_Connection_def EventListeners_Add_def Start_def TcpPacketStream_Connect_def start_ops_def)
qed

text \<open>
  C39: the example program hangs when the server cannot be reached. If the connection attempt fails, the
  listener hears \<open>ConnectionFailed\<close>, which does not raise the semaphore; nothing is pending any more,
  so whatever the environment delivers, the state stays as it is and the main thread never wakes up.
\<close>

theorem example_hangs_without_server:
  fixes E :: "('z, 'v) env"
  assumes "\<And>host port. e_resolve E host port = Inr ()" and "tid \<noteq> e_worker E" and "ec_failed ec"
  shows "\<exists>cl w. main_start E tid = Inr (Inr cl)
     \<and> exec E (Completion 0 (ConnectDone ec) now) (c_connection cl) = Inr w
     \<and> listenerCalls w = [((), EvConnectionFailed, ec_message (e_boost_message E) ec)]
     \<and> (\<forall>cs. foldR (exec E) (map (\<lambda>(i, c, now). Completion i c now) cs) w = Inr w)
     \<and> main_continue (cl\<lparr>c_connection := w\<rparr>) = None"
proof -
  from main_start_connects [OF assms(1,2)] obtain host where
    m: "main_start E tid = Inr (Inr \<lparr>c_connection = (new_Connection E)
     \<lparr>eventListeners := \<lparr>el_mutex = False, el_listeners = [()]\<rparr>, ioContext := [PendingConnect host ''3251'']\<rparr>\<rparr>)"
    by blast
  let ?v = "(new_Connection E)\<lparr>eventListeners := \<lparr>el_mutex = False, el_listeners = [()]\<rparr>, clock := now, ioContext := []\<rparr>
    :: (unit, unit) connection"
  let ?w = "to_inited EvConnectionFailed (ec_message (e_boost_message E) ec) ?v"
  have e: "exec E (Completion 0 (ConnectDone ec) now) ((new_Connection E)
     \<lparr>eventListeners := \<lparr>el_mutex = False, el_listeners = [()]\<rparr>, ioContext := [PendingConnect host ''3251'']\<rparr>) = Inr ?w"
    using assms(3) HandshakeFailed_eq [of ?v E ec]
    by (simp add: OnConnect_def take_op_def new_Connection_def)
  have "listenerCalls ?w = [((), EvConnectionFailed, ec_message (e_boost_message E) ec)]" "ioContext ?w = []"
    by (simp_all add: new_Connection_def EventListeners_Broadcast_def drop_heartbeat_timers_def)
  with m e show ?thesis
    using idle_stays [of ?w E]
    by (intro exI [of _ "\<lparr>c_connection = (new_Connection E)
     \<lparr>eventListeners := \<lparr>el_mutex = False, el_listeners = [()]\<rparr>, ioContext := [PendingConnect host ''3251'']\<rparr>\<rparr>"] exI [of _ ?w])
      (simp add: main_continue_iff)
qed

theorem example_hangs_without_server_witness:
  "\<exists>cl w. main_start sample_env 7 = Inr (Inr cl)
     \<and> exec sample_env (Completion 0 (ConnectDone (make_error_code WrongPacket)) 3) (c_connection cl) = Inr w
     \<and> main_continue (cl\<lparr>c_connection := w\<rparr>) = None"
  using example_hangs_without_server [of sample_env 7 "make_error_code WrongPacket" 3]
  by (auto simp: sample_env_def simp del: exec.simps)

section \<open>With a server\<close>

lemma main_start_started:
  assumes "main_start E tid = Inr (Inr cl)"
  shows "exec E (UserStart tid example_address)
      ((new_Connection E)\<lparr>eventListeners := \<lparr>el_mutex = False, el_listeners = [()]\<rparr>\<rparr>) = Inr (c_connection cl)"
  using assms
  by (auto simp: main_start_def Client_AddEventListener_def Client_Connect_def new_Client_def AddEventListener_def
      new_Connection_def EventListeners_Add_def bindR_eq_Inr split: sum.splits option.splits)

text \<open>The program up to its request, if the attempt and the handshake succeed.\<close>

lemma main_connects:
  fixes E :: "('z, 'v) env"
  assumes "\<And>host port. e_resolve E host port = Inr ()" and "tid \<noteq> e_worker E"
    and "length body \<le> 2044" and "\<not> IsCompressed body"
    and "parse_handshake (e_build E) (e_json E) (string_of_bytes body) = Inr (Some (interval, ser, routes))"
    and "in_int64 (interval * kHeartbeatFactor)"
    and "um_find routes ''connector.getsessiondata'' = Some code"
  obtains cl w where "main_start E tid = Inr (Inr cl)"
    and "foldR (exec E) (tl (connect_events tid example_address (serialize (NewHandshake_range body)) now))
         (c_connection cl) = Inr w"
    and "listenerCalls w = [((), EvConnected, ''Connection successful'')]"
    and "request_ready E ''connector.getsessiondata'' code w"
    and "ioContext w = [PendingWait HeartbeatTimer False, PendingWait HeartbeatTimeoutTimer False,
          PendingReceive 0 2048 PacketsReceived]"
    and "handlerCalls w = []" and "reqId w = 1" and "readBufferMaxSize (packetStream w) = 2048"
proof -
  let ?ev = "connect_events tid example_address (serialize (NewHandshake_range body)) now :: (unit, unit) event list"
  obtain host where host: "SplitHostAndPort example_address = Some (host, ''3251'')" using example_split by blast
  obtain cl where main: "main_start E tid = Inr (Inr cl)" using main_start_connects [OF assms(1,2)] by blast
  let ?w0 = "(new_Connection E)\<lparr>eventListeners := \<lparr>el_mutex = False, el_listeners = [()]\<rparr>\<rparr> :: (unit, unit) connection"
  have w0: "listenerCalls ?w0 = []" "workerThreadId ?w0 = Some (e_worker E)" "inFlightRequests ?w0 = []"
    "handlerCalls ?w0 = []" "reqId ?w0 = 1" "el_listeners (eventListeners ?w0) = [()]"
    by (simp_all add: new_Connection_def)
  have ready: "ready_to_start E ?w0" by simp
  obtain w :: "(unit, unit) connection" where
    run: "foldR (exec E) ?ev ?w0 = Inr w"
    and w': "st_val (state w) = Connected (new_connected (e_order E) interval (interval * kHeartbeatFactor) ser routes
          (ExpiresAfter interval) (ExpiresAt (now + interval * kHeartbeatFactor)))"
      "ioContext w = [PendingWait HeartbeatTimer False, PendingWait HeartbeatTimeoutTimer False,
          PendingReceive 0 2048 PacketsReceived]"
      "listenerCalls w = listenerCalls ?w0
          @ map (\<lambda>l. (l, EvConnected, ''Connection successful'')) (el_listeners (eventListeners ?w0))"
      "\<not> st_mutex (state w)" "workerThreadId w = workerThreadId ?w0" "inFlightRequests w = inFlightRequests ?w0"
      "handlerCalls w = handlerCalls ?w0" "reqId w = reqId ?w0" "stream_idle (packetStream w)"
    by (rule handshake_run_connects [OF host assms(1,2) ready assms(3-6), of now])
  note w = w' [unfolded w0 list.map append_Nil]
  have "?ev = UserStart tid example_address # tl ?ev" by (simp add: connect_events_def)
  then have run': "foldR (exec E) (tl ?ev) (c_connection cl) = Inr w"
    using run main_start_started [OF main] by (metis bindR_Inr foldR.simps(2))
  have "request_ready E ''connector.getsessiondata'' code w"
    using w assms(7) by (simp add: request_ready_def new_connected_def stream_idle_def um_find_def [of "[]"])
  with main run' w that show thesis by (auto simp: stream_idle_def)
qed

text \<open>
  C38: with a server that plays its part, the example program gets its data. If the connection attempt and
  the handshake succeed and the routes of the server contain the one of the program, the listener logs
  the connection and raises the semaphore, the main thread goes on, its request is sent, and when the
  server answers, the handler of the request is called once and logs the data of the answer.
\<close>

theorem example_gets_reply:
  fixes E :: "('z, 'v) env"
  assumes "\<And>host port. e_resolve E host port = Inr ()" and "tid \<noteq> e_worker E"
    and "length body \<le> 2044" and "\<not> IsCompressed body"
    and "parse_handshake (e_build E) (e_json E) (string_of_bytes body) = Inr (Some (interval, ser, routes))"
    and "in_int64 (interval * kHeartbeatFactor)"
    and "um_find routes ''connector.getsessiondata'' = Some code"
    and "length reply \<le> 2042"
  shows "\<exists>cl w cl' w'. main_start E tid = Inr (Inr cl)
     \<and> foldR (exec E) (tl (connect_events tid example_address (serialize (NewHandshake_range body)) now))
         (c_connection cl) = Inr w
     \<and> map (\<lambda>(_, ev, msg). example_listener_log ev msg) (listenerCalls w) =
         [(LogLevel_Info, [''===> Got event: ('', ''Connected'', '') => '', ''Connection successful''])]
     \<and> main_continue (cl\<lparr>c_connection := w\<rparr>) = Some cl'
     \<and> foldR (exec E) [Completion 3 Run now, Completion 3 Run now, Completion 3 (SendDone ec_success k) now,
           Completion 2 (ReceiveDone ec_success (serialize (NewData_range (4 # 1 # reply)))) now]
         (c_connection cl') = Inr w'
     \<and> map (\<lambda>(_, status, data). example_handler_log status data) (handlerCalls w') =
         [(LogLevel_Info, [''Received data from server: '', string_of_bytes reply])]"
proof -
  obtain cl w where main: "main_start E tid = Inr (Inr cl)"
    and run: "foldR (exec E) (tl (connect_events tid example_address (serialize (NewHandshake_range body)) now))
         (c_connection cl) = Inr w"
    and w: "listenerCalls w = [((), EvConnected, ''Connection successful'')]"
      "request_ready E ''connector.getsessiondata'' code w"
      "ioContext w = [PendingWait HeartbeatTimer False, PendingWait HeartbeatTimeoutTimer False,
          PendingReceive 0 2048 PacketsReceived]"
      "handlerCalls w = []" "reqId w = 1" "readBufferMaxSize (packetStream w) = 2048"
    by (rule main_connects [OF assms(1-7), of now])
  let ?p = "PostRequest ''connector.getsessiondata'' [] 5 () w"
  have "encode_id (reqId w) = [1]" unfolding w(5) by code_simp
  then obtain w1 w2 where
    "foldR (exec E) [Completion 3 Run now, Completion 3 Run now, Completion 3 (SendDone ec_success k) now] ?p = Inr w1"
    "exec E (Completion 2 (ReceiveDone ec_success (serialize (NewData_range (4 # 1 # reply)))) now) w1 = Inr w2"
    and calls: "handlerCalls w2 = [((), Ok, reply)]"
    using posted_request_answered [OF w(2), of 3 2 "serialize (NewData_range (4 # 1 # reply))" reply now k "[]" 5 "()"]
      w assms(8) by (auto simp: NewData_range_def Packet_SerializeInto_def simp del: exec.simps)
  then have "foldR (exec E) ([Completion 3 Run now, Completion 3 Run now, Completion 3 (SendDone ec_success k) now] @
      [Completion 2 (ReceiveDone ec_success (serialize (NewData_range (4 # 1 # reply)))) now]) ?p = Inr w2"
    by (simp only: foldR_append foldR.simps bindR_Inr)
  moreover have "main_continue (cl\<lparr>c_connection := w\<rparr>) = Some (cl\<lparr>c_connection := ?p\<rparr>)"
    using w(1) by (simp add: main_continue_def Semaphore_Wait_def example_semaphore_count Client_Request_empty_def)
  ultimately show ?thesis
    using main run w(1) calls
    by (intro exI [of _ cl] exI [of _ w] exI [of _ "cl\<lparr>c_connection := ?p\<rparr>"] exI [of _ w2])
      (simp add: example_listener_log_def example_handler_log_def del: exec.simps foldR.simps)
qed

text \<open>The sample environment with the route of the program in the dictionary of the server.\<close>

definition example_env :: "(bytes, nat) env" where
  "example_env = sample_env\<lparr>e_json := sample_json\<lparr>j_GetString := (\<lambda>v. ''connector.getsessiondata'')\<rparr>\<rparr>"

theorem example_gets_reply_witness:
  "\<exists>cl w cl' w'. main_start example_env 7 = Inr (Inr cl)
     \<and> foldR (exec example_env) (tl (connect_events 7 example_address (serialize (NewHandshake_range [123, 125])) 0))
         (c_connection cl) = Inr w
     \<and> main_continue (cl\<lparr>c_connection := w\<rparr>) = Some cl'
     \<and> foldR (exec example_env) [Completion 3 Run 0, Completion 3 Run 0, Completion 3 (SendDone ec_success 8) 0,
           Completion 2 (ReceiveDone ec_success (serialize (NewData_range (4 # 1 # [104, 105])))) 0]
         (c_connection cl') = Inr w'
     \<and> map (\<lambda>(_, status, data). example_handler_log status data) (handlerCalls w') =
         [(LogLevel_Info, [''Received data from server: '', ''hi''])]"
proof -
  have "parse_handshake (e_build example_env) (e_json example_env) (string_of_bytes [123, 125]) =
      Inr (Some (30, ''json'', [(''connector.getsessiondata'', 9)]))" by code_simp
  moreover have "e_resolve example_env host port = Inr ()" for host port by (simp add: example_env_def sample_env_def)
  moreover have "7 \<noteq> e_worker example_env" by (simp add: example_env_def sample_env_def)
  moreover have "\<not> IsCompressed [123, 125]" by (simp add: IsCompressed_def)
  moreover have "in_int64 (30 * kHeartbeatFactor)" by (simp add: in_int64_def kHeartbeatFactor_def)
  moreover have "um_find [(''connector.getsessiondata'', 9)] ''connector.getsessiondata'' = Some 9"
    by (simp add: um_find_def)
  moreover have "string_of_bytes [104, 105] = ''hi''" by code_simp
  ultimately show ?thesis
    using example_gets_reply [of example_env 7 "[123, 125]" 30 "''json''" "[(''connector.getsessiondata'', 9)]" 9
        "[104, 105]" 0 8] by fastforce
qed

end
